theory Spec2Isabelle
  imports Main "HOL-Library.Char_ord" "HOL-Library.List_Lexorder"
begin

section \<open>The keyfile policy backend of polkit-no-script\<close>

text \<open>
  A shallow embedding of \<^verbatim>\<open>src/polkitbackend/polkitbackendpolicyfile.c\<close> (the rule parser)
  and \<^verbatim>\<open>src/polkitbackend/polkitbackendkeyfileauthority.c\<close> (the chain loader, the
  directory watcher and the two evaluation entry points).

  The header \<^verbatim>\<open>polkitbackendpolicyfile.h\<close> is not among the sources. The structs
  \<^verbatim>\<open>Policy\<close> and \<^verbatim>\<open>PolicyFile\<close> are reconstructed from the fields the two C files
  read and write; the enumerators of \<^verbatim>\<open>PolkitResponse\<close> and the \<^verbatim>\<open>PF_CONSTRAINT_*\<close>
  flags are the ones the C files name. The numeric values of the enumerators are not
  known, so the value of a zero-filled \<^verbatim>\<open>PolkitResponse\<close> field is a parameter, and
  the constraint mask is the set of flags that were or-ed into it.
\<close>

subsection \<open>GLib string helpers\<close>

text \<open>
  GLib's table marks the space, the tab, the line feed, the form feed and the carriage
  return as white space; the vertical tab (byte 11) is not among them.
\<close>

definition g_ascii_isspace :: "char \<Rightarrow> bool" where
  "g_ascii_isspace c = (of_char c \<in> {32, 9, 10, 12, 13 :: nat})"

definition g_strstrip :: "string \<Rightarrow> string" where
  "g_strstrip s = rev (dropWhile g_ascii_isspace (rev (dropWhile g_ascii_isspace s)))"

text \<open>\<^verbatim>\<open>g_ascii_tolower\<close> moves the 26 ASCII capitals and leaves every other byte.\<close>

definition g_ascii_tolower :: "char \<Rightarrow> char" where
  "g_ascii_tolower c =
     (case map_of (zip ''ABCDEFGHIJKLMNOPQRSTUVWXYZ'' ''abcdefghijklmnopqrstuvwxyz'') c of
        Some l \<Rightarrow> l
      | None \<Rightarrow> c)"

definition g_ascii_strdown :: "string \<Rightarrow> string" where
  "g_ascii_strdown s = map g_ascii_tolower s"

definition g_str_has_prefix :: "string \<Rightarrow> string \<Rightarrow> bool" where
  "g_str_has_prefix s p = (take (length p) s = p)"

definition g_str_has_suffix :: "string \<Rightarrow> string \<Rightarrow> bool" where
  "g_str_has_suffix s p = (length p \<le> length s \<and> drop (length s - length p) s = p)"

subsection \<open>GKeyFile\<close>

text \<open>
  A loaded \<^verbatim>\<open>GKeyFile\<close> is a table of groups, each a table from keys to raw value
  text. GLib's typed accessors fail with \<^verbatim>\<open>G_KEY_FILE_ERROR_GROUP_NOT_FOUND\<close> or
  \<^verbatim>\<open>G_KEY_FILE_ERROR_KEY_NOT_FOUND\<close> when the group or the key is absent, and with
  \<^verbatim>\<open>G_KEY_FILE_ERROR_INVALID_VALUE\<close> when the raw text is not of the requested form.
  GLib is not part of the repository: how it reads a raw value as a string, a
  \<^verbatim>\<open>;\<close>-separated list or a boolean is left open as the three functions of
  \<open>glib\<close>, and every theorem below holds for each choice of them.
\<close>

type_synonym GKeyFile = "string \<Rightarrow> (string \<Rightarrow> string option) option"

datatype GError =
    G_FILE_ERROR
  | G_KEY_FILE_ERROR_PARSE
  | G_KEY_FILE_ERROR_GROUP_NOT_FOUND
  | G_KEY_FILE_ERROR_KEY_NOT_FOUND
  | G_KEY_FILE_ERROR_INVALID_VALUE

datatype PolkitResponse =
    PK_RESPONSE_NO
  | PK_RESPONSE_YES
  | PK_RESPONSE_AUTH_SELF
  | PK_RESPONSE_AUTH_SELF_KEEP
  | PK_RESPONSE_AUTH_ADMIN
  | PK_RESPONSE_AUTH_ADMIN_KEEP
  | PK_RESPONSE_UNHANDLED

record glib =
  as_string :: "string \<Rightarrow> string option"
  as_string_list :: "string \<Rightarrow> string list option"
  as_boolean :: "string \<Rightarrow> bool option"
  zero_response :: PolkitResponse

definition g_key_file_has_group :: "GKeyFile \<Rightarrow> string \<Rightarrow> bool" where
  "g_key_file_has_group kf group_name = (kf group_name \<noteq> None)"

definition g_key_file_has_key :: "GKeyFile \<Rightarrow> string \<Rightarrow> string \<Rightarrow> bool" where
  "g_key_file_has_key kf group_name key =
     (case kf group_name of None \<Rightarrow> False | Some g \<Rightarrow> g key \<noteq> None)"

definition g_key_file_get_value :: "GKeyFile \<Rightarrow> string \<Rightarrow> string \<Rightarrow> GError + string" where
  "g_key_file_get_value kf group_name key =
     (case kf group_name of
        None \<Rightarrow> Inl G_KEY_FILE_ERROR_GROUP_NOT_FOUND
      | Some g \<Rightarrow>
          (case g key of
             None \<Rightarrow> Inl G_KEY_FILE_ERROR_KEY_NOT_FOUND
           | Some raw \<Rightarrow> Inr raw))"

definition typed :: "(string \<Rightarrow> 'a option) \<Rightarrow> GError + string \<Rightarrow> GError + 'a" where
  "typed rd v =
     (case v of
        Inl e \<Rightarrow> Inl e
      | Inr raw \<Rightarrow>
          (case rd raw of None \<Rightarrow> Inl G_KEY_FILE_ERROR_INVALID_VALUE | Some x \<Rightarrow> Inr x))"

definition g_key_file_get_string ::
  "glib \<Rightarrow> GKeyFile \<Rightarrow> string \<Rightarrow> string \<Rightarrow> GError + string" where
  "g_key_file_get_string x kf group_name key =
     typed (as_string x) (g_key_file_get_value kf group_name key)"

definition g_key_file_get_string_list ::
  "glib \<Rightarrow> GKeyFile \<Rightarrow> string \<Rightarrow> string \<Rightarrow> GError + string list" where
  "g_key_file_get_string_list x kf group_name key =
     typed (as_string_list x) (g_key_file_get_value kf group_name key)"

definition g_key_file_get_boolean ::
  "glib \<Rightarrow> GKeyFile \<Rightarrow> string \<Rightarrow> string \<Rightarrow> GError + bool" where
  "g_key_file_get_boolean x kf group_name key =
     typed (as_boolean x) (g_key_file_get_value kf group_name key)"

subsection \<open>Policy records\<close>

datatype PolicyConstraint =
    PF_CONSTRAINT_ACTIONS
  | PF_CONSTRAINT_ACTION_CONTAINS
  | PF_CONSTRAINT_UNIX_GROUPS
  | PF_CONSTRAINT_NET_GROUPS
  | PF_CONSTRAINT_RESULT
  | PF_CONSTRAINT_RESULT_INVERSE
  | PF_CONSTRAINT_UNIX_NAMES
  | PF_CONSTRAINT_SUBJECT_ACTIVE
  | PF_CONSTRAINT_SUBJECT_LOCAL

text \<open>
  One \<^verbatim>\<open>Policy\<close> struct. The C field \<^verbatim>\<open>id\<close> is \<open>policy_id\<close> here; a \<^verbatim>\<open>gchar **\<close>
  field is the list of its strings (\<open>[]\<close> for the \<^verbatim>\<open>NULL\<close> that \<^verbatim>\<open>g_new0\<close> leaves);
  the \<^verbatim>\<open>next\<close> link is the order of the list that holds the record.
\<close>

record Policy =
  policy_id :: string
  actions :: "string list"
  n_actions :: nat
  action_contains :: "string list"
  n_action_contains :: nat
  unix_groups :: "string list"
  n_unix_groups :: nat
  net_groups :: "string list"
  n_net_groups :: nat
  unix_names :: "string list"
  n_unix_names :: nat
  response :: PolkitResponse
  response_inverse :: PolkitResponse
  require_active :: bool
  require_local :: bool
  constraints :: "PolicyConstraint set"

record PolicyRules =
  normal :: "Policy list"
  admin :: "Policy list"

text \<open>What the process can die of: both are reached by code of the repository.\<close>

datatype fault = NullDereference | AssertionFailed

definition POLICY_SECTION :: string where
  "POLICY_SECTION = ''Policy''"

subsection \<open>The rule parser\<close>

definition policy_string_to_result :: "string \<Rightarrow> PolkitResponse" where
  "policy_string_to_result inp =
     (let comparison = g_ascii_strdown inp in
      if comparison = ''no'' then PK_RESPONSE_NO
      else if comparison = ''yes'' then PK_RESPONSE_YES
      else if comparison = ''auth_self'' then PK_RESPONSE_AUTH_SELF
      else if comparison = ''auth_self_keep'' then PK_RESPONSE_AUTH_SELF_KEEP
      else if comparison = ''auth_admin'' then PK_RESPONSE_AUTH_ADMIN
      else if comparison = ''auth_admin_keep'' then PK_RESPONSE_AUTH_ADMIN_KEEP
      else PK_RESPONSE_UNHANDLED)"

text \<open>\<^verbatim>\<open>g_new0 (Policy, 1)\<close> followed by \<^verbatim>\<open>policy->id = g_strdup (section_id)\<close>.\<close>

definition policy_new0 :: "glib \<Rightarrow> string \<Rightarrow> Policy" where
  "policy_new0 x section_id =
     \<lparr> policy_id = section_id,
       actions = [], n_actions = 0,
       action_contains = [], n_action_contains = 0,
       unix_groups = [], n_unix_groups = 0,
       net_groups = [], n_net_groups = 0,
       unix_names = [], n_unix_names = 0,
       response = zero_response x,
       response_inverse = zero_response x,
       require_active = False,
       require_local = False,
       constraints = {} \<rparr>"

text \<open>
  Each block of \<^verbatim>\<open>policy_load\<close> either falls through with the record updated, or
  jumps to \<^verbatim>\<open>handle_err\<close>. A jump is \<open>Inl err\<close>, where \<open>err\<close> is the local
  \<^verbatim>\<open>GError *err\<close> at that moment: \<open>None\<close> while it is still \<^verbatim>\<open>NULL\<close>.
\<close>

definition load_string_list ::
  "glib \<Rightarrow> GKeyFile \<Rightarrow> string \<Rightarrow> string \<Rightarrow> (string list \<Rightarrow> Policy \<Rightarrow> Policy) \<Rightarrow>
   PolicyConstraint \<Rightarrow> Policy \<Rightarrow> GError option + Policy" where
  "load_string_list x kf section_id key store flag policy =
     (if g_key_file_has_key kf section_id key then
        (case g_key_file_get_string_list x kf section_id key of
           Inl err \<Rightarrow> Inl (Some err)
         | Inr segments \<Rightarrow>
             Inr ((store segments policy)
                    \<lparr> constraints := insert flag (constraints policy) \<rparr>))
      else Inr policy)"

definition load_result :: "glib \<Rightarrow> GKeyFile \<Rightarrow> string \<Rightarrow> Policy \<Rightarrow> GError option + Policy" where
  "load_result x kf section_id policy =
     (if g_key_file_has_key kf section_id ''Result'' then
        (case g_key_file_get_string x kf section_id ''Result'' of
           Inl err \<Rightarrow> Inl (Some err)
         | Inr result \<Rightarrow>
             (let policy1 = policy \<lparr> response := policy_string_to_result (g_strstrip result) \<rparr> in
              if response policy1 = PK_RESPONSE_UNHANDLED then Inl None
              else Inr (policy1 \<lparr> constraints := insert PF_CONSTRAINT_RESULT (constraints policy1) \<rparr>)))
      else Inr policy)"

text \<open>
  The \<^verbatim>\<open>ResultInverse\<close> block stores into \<^verbatim>\<open>policy->response_inverse\<close> and then
  tests \<^verbatim>\<open>policy->response\<close> (line 223 of the C file).
\<close>

definition load_result_inverse ::
  "glib \<Rightarrow> GKeyFile \<Rightarrow> string \<Rightarrow> Policy \<Rightarrow> GError option + Policy" where
  "load_result_inverse x kf section_id policy =
     (if g_key_file_has_key kf section_id ''ResultInverse'' then
        (case g_key_file_get_string x kf section_id ''ResultInverse'' of
           Inl err \<Rightarrow> Inl (Some err)
         | Inr result \<Rightarrow>
             (let policy1 = policy \<lparr> response_inverse := policy_string_to_result (g_strstrip result) \<rparr> in
              if response policy1 = PK_RESPONSE_UNHANDLED then Inl None
              else Inr (policy1 \<lparr> constraints :=
                                    insert PF_CONSTRAINT_RESULT_INVERSE (constraints policy1) \<rparr>)))
      else Inr policy)"

definition load_boolean ::
  "glib \<Rightarrow> GKeyFile \<Rightarrow> string \<Rightarrow> string \<Rightarrow> (bool \<Rightarrow> Policy \<Rightarrow> Policy) \<Rightarrow>
   PolicyConstraint \<Rightarrow> Policy \<Rightarrow> GError option + Policy" where
  "load_boolean x kf section_id key store flag policy =
     (if g_key_file_has_key kf section_id key then
        (case g_key_file_get_boolean x kf section_id key of
           Inl err \<Rightarrow> Inl (Some err)
         | Inr b \<Rightarrow>
             Inr ((store b policy) \<lparr> constraints := insert flag (constraints policy) \<rparr>))
      else Inr policy)"

text \<open>The blocks run in the order of the C text; the first jump ends the run.\<close>

fun run_blocks :: "('a \<Rightarrow> 'e + 'a) list \<Rightarrow> 'a \<Rightarrow> 'e + 'a" where
  "run_blocks [] policy = Inr policy"
| "run_blocks (b # bs) policy =
     (case b policy of Inl err \<Rightarrow> Inl err | Inr policy1 \<Rightarrow> run_blocks bs policy1)"

definition policy_blocks ::
  "glib \<Rightarrow> GKeyFile \<Rightarrow> string \<Rightarrow> (Policy \<Rightarrow> GError option + Policy) list" where
  "policy_blocks x kf section_id =
     [ load_string_list x kf section_id ''Actions''
         (\<lambda>v p. p \<lparr> actions := v, n_actions := length v \<rparr>) PF_CONSTRAINT_ACTIONS,
       load_string_list x kf section_id ''ActionContains''
         (\<lambda>v p. p \<lparr> action_contains := v, n_action_contains := length v \<rparr>)
         PF_CONSTRAINT_ACTION_CONTAINS,
       load_string_list x kf section_id ''InUnixGroups''
         (\<lambda>v p. p \<lparr> unix_groups := v, n_unix_groups := length v \<rparr>) PF_CONSTRAINT_UNIX_GROUPS,
       load_string_list x kf section_id ''InNetGroups''
         (\<lambda>v p. p \<lparr> net_groups := v, n_net_groups := length v \<rparr>) PF_CONSTRAINT_NET_GROUPS,
       load_result x kf section_id,
       load_result_inverse x kf section_id,
       load_string_list x kf section_id ''InUserNames''
         (\<lambda>v p. p \<lparr> unix_names := v, n_unix_names := length v \<rparr>) PF_CONSTRAINT_UNIX_NAMES,
       load_boolean x kf section_id ''SubjectActive''
         (\<lambda>b p. p \<lparr> require_active := b \<rparr>) PF_CONSTRAINT_SUBJECT_ACTIVE,
       load_boolean x kf section_id ''SubjectLocal''
         (\<lambda>b p. p \<lparr> require_local := b \<rparr>) PF_CONSTRAINT_SUBJECT_LOCAL ]"

text \<open>
  \<^verbatim>\<open>handle_err\<close> prints \<^verbatim>\<open>err->message\<close> before it frees the record and returns
  \<^verbatim>\<open>NULL\<close>. After a GLib failure \<^verbatim>\<open>err\<close> is set. After an unrecognised result
  keyword nothing has set it, and the print reads through a \<^verbatim>\<open>NULL\<close> pointer.
\<close>

definition handle_err :: "GError option \<Rightarrow> fault + Policy option" where
  "handle_err err = (case err of None \<Rightarrow> Inl NullDereference | Some e \<Rightarrow> Inr None)"

definition policy_load :: "glib \<Rightarrow> GKeyFile \<Rightarrow> string \<Rightarrow> fault + Policy option" where
  "policy_load x kf section_id =
     (if \<not> g_key_file_has_group kf section_id then Inr None
      else
        (case run_blocks (policy_blocks x kf section_id) (policy_new0 x section_id) of
           Inl err \<Rightarrow> handle_err err
         | Inr policy \<Rightarrow> Inr (Some policy)))"

text \<open>
  The loop of \<^verbatim>\<open>policy_file_load_rules\<close>: \<open>target\<close> is the list \<^verbatim>\<open>*target\<close> heads,
  and linking \<^verbatim>\<open>p\<close> behind \<^verbatim>\<open>last\<close> appends it. The result is the returned
  \<^verbatim>\<open>gboolean\<close> together with what \<^verbatim>\<open>*target\<close> holds at the return.
\<close>

fun load_rules_loop ::
  "glib \<Rightarrow> GKeyFile \<Rightarrow> string list \<Rightarrow> Policy list \<Rightarrow> fault + bool \<times> Policy list" where
  "load_rules_loop x kf [] target = Inr (True, target)"
| "load_rules_loop x kf (s # sections) target =
     (case policy_load x kf (g_strstrip s) of
        Inl f \<Rightarrow> Inl f
      | Inr None \<Rightarrow> Inr (False, target)
      | Inr (Some p) \<Rightarrow> load_rules_loop x kf sections (target @ [p]))"

definition policy_file_load_rules ::
  "glib \<Rightarrow> GKeyFile \<Rightarrow> string \<Rightarrow> fault + bool \<times> Policy list" where
  "policy_file_load_rules x kf section =
     (case g_key_file_get_string_list x kf POLICY_SECTION section of
        Inl err \<Rightarrow> Inr (False, [])
      | Inr sections \<Rightarrow> load_rules_loop x kf sections [])"

text \<open>
  \<^verbatim>\<open>policy_file_new_from_path\<close>. The file system is \<open>fs\<close>: what
  \<^verbatim>\<open>g_key_file_load_from_file\<close> yields for a path, \<open>None\<close> when it fails. The
  returned pointer is modelled by the rules of the \<^verbatim>\<open>PolicyFile\<close> it points to
  (the node's \<^verbatim>\<open>next\<close> is \<^verbatim>\<open>NULL\<close>); on both failure returns the partly filled
  \<^verbatim>\<open>PolicyFile\<close> is freed and \<^verbatim>\<open>NULL\<close> is returned.
\<close>

definition policy_file_new_from_path ::
  "glib \<Rightarrow> (string \<Rightarrow> GKeyFile option) \<Rightarrow> string \<Rightarrow> fault + PolicyRules option" where
  "policy_file_new_from_path x fs path =
     (case fs path of
        None \<Rightarrow> Inr None
      | Some keyf \<Rightarrow>
          (case policy_file_load_rules x keyf ''Rules'' of
             Inl f \<Rightarrow> Inl f
           | Inr (ok, rules_normal) \<Rightarrow>
               if \<not> ok then Inr None
               else
                 (case policy_file_load_rules x keyf ''AdminRules'' of
                    Inl f \<Rightarrow> Inl f
                  | Inr (ok1, rules_admin) \<Rightarrow>
                      if \<not> ok1 then Inr None
                      else Inr (Some \<lparr> normal = rules_normal, admin = rules_admin \<rparr>))))"

subsection \<open>The authority and its chain of policy files\<close>

text \<open>
  \<^verbatim>\<open>PolicyFile\<close> nodes live in a store, since \<^verbatim>\<open>load_scripts\<close> writes the
  \<^verbatim>\<open>next\<close> field of a node that the authority's \<^verbatim>\<open>policy\<close> pointer already
  reaches. The C field \<^verbatim>\<open>next\<close> is \<open>next_file\<close>. An address is a number and
  \<^verbatim>\<open>g_new0\<close> hands out \<open>next_addr\<close>, the first address never used.
\<close>

type_synonym addr = nat

record PolicyFile =
  rules :: PolicyRules
  next_file :: "addr option"

text \<open>The lines \<^verbatim>\<open>polkit_backend_authority_log\<close> is called with, by format string.\<close>

datatype log_line =
    LoadingRulesFromDirectory string
  | ErrorOpeningRulesDirectory string
  | ErrorCompilingRules string
  | FinishedLoading nat
  | ReloadingRules

record authority =
  rules_dirs :: "string list option"
  policy :: "addr option"
  store :: "addr \<Rightarrow> PolicyFile option"
  next_addr :: addr
  logged :: "log_line list"
  changed_signals :: nat

definition polkit_backend_authority_log :: "authority \<Rightarrow> log_line \<Rightarrow> authority" where
  "polkit_backend_authority_log s l = s \<lparr> logged := logged s @ [l] \<rparr>"

text \<open>
  What a reader of the chain sees: the rules of the nodes reached from \<^verbatim>\<open>policy\<close>
  through \<^verbatim>\<open>next\<close>. The walk takes at most \<open>next_addr\<close> steps, one for each node
  that was ever allocated.
\<close>

fun chain_from :: "nat \<Rightarrow> (addr \<Rightarrow> PolicyFile option) \<Rightarrow> addr option \<Rightarrow> PolicyRules list" where
  "chain_from n st None = []"
| "chain_from 0 st (Some a) = []"
| "chain_from (Suc n) st (Some a) =
     (case st a of None \<Rightarrow> [] | Some f \<Rightarrow> rules f # chain_from n st (next_file f))"

definition chain :: "authority \<Rightarrow> PolicyRules list" where
  "chain s = chain_from (next_addr s) (store s) (policy s)"

text \<open>\<^verbatim>\<open>policy_file_free\<close>: the rest of the chain first, then the node itself.\<close>

fun policy_file_free ::
  "nat \<Rightarrow> (addr \<Rightarrow> PolicyFile option) \<Rightarrow> addr option \<Rightarrow> (addr \<Rightarrow> PolicyFile option)" where
  "policy_file_free n st None = st"
| "policy_file_free 0 st (Some a) = st"
| "policy_file_free (Suc n) st (Some a) =
     (case st a of
        None \<Rightarrow> st
      | Some f \<Rightarrow> (policy_file_free n st (next_file f)) (a := None))"

subsection \<open>Ordering the rule files\<close>

text \<open>\<^verbatim>\<open>strcmp\<close> on bytes; only the sign of the result is used.\<close>

fun g_strcmp0 :: "string \<Rightarrow> string \<Rightarrow> int" where
  "g_strcmp0 [] [] = 0"
| "g_strcmp0 [] (y # ys) = - 1"
| "g_strcmp0 (x # xs) [] = 1"
| "g_strcmp0 (x # xs) (y # ys) =
     (if x = y then g_strcmp0 xs ys
      else if (of_char x :: nat) < of_char y then - 1 else 1)"

text \<open>\<^verbatim>\<open>strrchr (a, '/') + 1\<close>: the text behind the last slash, \<open>None\<close> without one.\<close>

fun strrchr_slash :: "string \<Rightarrow> string option" where
  "strrchr_slash [] = None"
| "strrchr_slash (c # cs) =
     (case strrchr_slash cs of
        Some base \<Rightarrow> Some base
      | None \<Rightarrow> if c = CHR ''/'' then Some cs else None)"

definition rules_file_name_cmp :: "string \<Rightarrow> string \<Rightarrow> fault + int" where
  "rules_file_name_cmp a b =
     (case strrchr_slash a of
        None \<Rightarrow> Inl AssertionFailed
      | Some a_base \<Rightarrow>
          (case strrchr_slash b of
             None \<Rightarrow> Inl AssertionFailed
           | Some b_base \<Rightarrow>
               (let ret = g_strcmp0 a_base b_base in
                if ret = 0 then
                  (let ret1 = g_strcmp0 a b in
                   if ret1 = 0 then Inl AssertionFailed else Inr ret1)
                else Inr ret)))"

text \<open>
  \<^verbatim>\<open>g_list_sort\<close> is GLib's. It is modelled as an insertion sort that calls the
  comparator it is given: a list of two or more paths is compared pairwise until its
  order is decided, so a failing assertion of the comparator stops the sort.
\<close>

fun insert_sorted :: "('a \<Rightarrow> 'a \<Rightarrow> fault + int) \<Rightarrow> 'a \<Rightarrow> 'a list \<Rightarrow> fault + 'a list" where
  "insert_sorted cmp x [] = Inr [x]"
| "insert_sorted cmp x (y # ys) =
     (case cmp x y of
        Inl f \<Rightarrow> Inl f
      | Inr c \<Rightarrow>
          if c \<le> 0 then Inr (x # y # ys)
          else (case insert_sorted cmp x ys of Inl f \<Rightarrow> Inl f | Inr zs \<Rightarrow> Inr (y # zs)))"

fun g_list_sort :: "'a list \<Rightarrow> ('a \<Rightarrow> 'a \<Rightarrow> fault + int) \<Rightarrow> fault + 'a list" where
  "g_list_sort [] cmp = Inr []"
| "g_list_sort (x # xs) cmp =
     (case g_list_sort xs cmp of Inl f \<Rightarrow> Inl f | Inr ys \<Rightarrow> insert_sorted cmp x ys)"

subsection \<open>Loading the chain\<close>

text \<open>
  The host: what \<^verbatim>\<open>g_dir_open\<close> and \<^verbatim>\<open>g_dir_read_name\<close> list for a directory
  (\<open>None\<close> when it cannot be opened), and what \<^verbatim>\<open>g_key_file_load_from_file\<close> reads
  at a path.
\<close>

record host =
  dir_names :: "string \<Rightarrow> string list option"
  key_file :: "string \<Rightarrow> GKeyFile option"

fun read_names :: "string \<Rightarrow> string list \<Rightarrow> string list \<Rightarrow> string list" where
  "read_names dir_name [] files = files"
| "read_names dir_name (name # names) files =
     read_names dir_name names
       (if g_str_has_suffix name ''.keyrules'' then (dir_name @ ''/'' @ name) # files else files)"

fun scan_dirs ::
  "host \<Rightarrow> string list \<Rightarrow> authority \<Rightarrow> string list \<Rightarrow> authority \<times> string list" where
  "scan_dirs h [] s files = (s, files)"
| "scan_dirs h (dir_name # dirs) s files =
     (let s1 = polkit_backend_authority_log s (LoadingRulesFromDirectory dir_name) in
      case dir_names h dir_name of
        None \<Rightarrow>
          scan_dirs h dirs
            (polkit_backend_authority_log s1 (ErrorOpeningRulesDirectory dir_name)) files
      | Some names \<Rightarrow> scan_dirs h dirs s1 (read_names dir_name names files))"

definition sorted_files :: "host \<Rightarrow> authority \<Rightarrow> fault + authority \<times> string list" where
  "sorted_files h s =
     (case scan_dirs h (case rules_dirs s of None \<Rightarrow> [] | Some dirs \<Rightarrow> dirs) s [] of
        (s1, files) \<Rightarrow>
          (case g_list_sort files rules_file_name_cmp of
             Inl f \<Rightarrow> Inl f
           | Inr files1 \<Rightarrow> Inr (s1, files1)))"

text \<open>
  Linking one parsed file (lines 211 to 220). The node is placed at a fresh address;
  with \<^verbatim>\<open>last\<close> set it is written into \<^verbatim>\<open>last->next\<close>, otherwise into the
  authority's \<^verbatim>\<open>policy\<close> pointer itself.
\<close>

definition link_file ::
  "authority \<Rightarrow> addr option \<Rightarrow> PolicyRules \<Rightarrow> fault + authority \<times> addr option" where
  "link_file s last_file r =
     (let a = next_addr s;
          s1 = s \<lparr> store := (store s) (a \<mapsto> \<lparr> rules = r, next_file = None \<rparr>),
                   next_addr := Suc a \<rparr>
      in case last_file of
           Some l \<Rightarrow>
             (case store s1 l of
                None \<Rightarrow> Inl NullDereference
              | Some lf \<Rightarrow>
                  Inr (s1 \<lparr> store := (store s1) (l \<mapsto> lf \<lparr> next_file := Some a \<rparr>) \<rparr>, Some a))
         | None \<Rightarrow> Inr (s1 \<lparr> policy := Some a \<rparr>, Some a))"

text \<open>
  The loop over the sorted files (lines 196 to 221), on the triple of the authority,
  \<^verbatim>\<open>last\<close> and \<^verbatim>\<open>num_scripts\<close>. Each iteration starts with \<^verbatim>\<open>err = NULL\<close>. The call
  passes \<^verbatim>\<open>&err\<close> as a second argument, but \<^verbatim>\<open>policy_file_new_from_path\<close> as defined
  takes the path only and never sets it: when the file does not parse, the log call
  reads \<^verbatim>\<open>err->message\<close> with \<^verbatim>\<open>err\<close> still \<^verbatim>\<open>NULL\<close>, before the \<^verbatim>\<open>continue\<close> is
  reached.
\<close>

fun load_files ::
  "glib \<Rightarrow> host \<Rightarrow> string list \<Rightarrow> authority \<times> addr option \<times> nat \<Rightarrow>
   fault + authority \<times> addr option \<times> nat" where
  "load_files x h [] st = Inr st"
| "load_files x h (filename # l) (s, last_file, num_scripts) =
     (let err = (None :: GError option) in
      case policy_file_new_from_path x (key_file h) filename of
        Inl f \<Rightarrow> Inl f
      | Inr None \<Rightarrow>
          (case err of
             None \<Rightarrow> Inl NullDereference
           | Some e \<Rightarrow>
               load_files x h l
                 (polkit_backend_authority_log s (ErrorCompilingRules filename),
                  last_file, num_scripts))
      | Inr (Some r) \<Rightarrow>
          (case link_file s last_file r of
             Inl f \<Rightarrow> Inl f
           | Inr (s1, last1) \<Rightarrow> load_files x h l (s1, last1, Suc num_scripts)))"

definition load_scripts :: "glib \<Rightarrow> host \<Rightarrow> authority \<Rightarrow> fault + authority" where
  "load_scripts x h s =
     (case sorted_files h s of
        Inl f \<Rightarrow> Inl f
      | Inr (s1, files) \<Rightarrow>
          (case load_files x h files (s1, None, 0) of
             Inl f \<Rightarrow> Inl f
           | Inr (s2, last_file, num_scripts) \<Rightarrow>
               Inr (polkit_backend_authority_log s2 (FinishedLoading num_scripts))))"

text \<open>\<^verbatim>\<open>g_clear_pointer (&authority->priv->policy, policy_file_free)\<close>.\<close>

definition clear_policy :: "authority \<Rightarrow> authority" where
  "clear_policy s =
     s \<lparr> store := policy_file_free (next_addr s) (store s) (policy s), policy := None \<rparr>"

definition reload_scripts :: "glib \<Rightarrow> host \<Rightarrow> authority \<Rightarrow> fault + authority" where
  "reload_scripts x h s =
     (case load_scripts x h (clear_policy s) of
        Inl f \<Rightarrow> Inl f
      | Inr s1 \<Rightarrow> Inr (s1 \<lparr> changed_signals := Suc (changed_signals s1) \<rparr>))"

text \<open>
  The authority as it stands inside \<^verbatim>\<open>reload_scripts\<close> when the loop of
  \<^verbatim>\<open>load_scripts\<close> has run \<open>k\<close> times.
\<close>

definition reload_state_at :: "nat \<Rightarrow> glib \<Rightarrow> host \<Rightarrow> authority \<Rightarrow> fault + authority" where
  "reload_state_at k x h s =
     (case sorted_files h (clear_policy s) of
        Inl f \<Rightarrow> Inl f
      | Inr (s1, files) \<Rightarrow>
          (case load_files x h (take k files) (s1, None, 0) of
             Inl f \<Rightarrow> Inl f
           | Inr (s2, last_file, num_scripts) \<Rightarrow> Inr s2))"

subsection \<open>The directory watcher\<close>

datatype GFileMonitorEvent =
    G_FILE_MONITOR_EVENT_CHANGED
  | G_FILE_MONITOR_EVENT_CHANGES_DONE_HINT
  | G_FILE_MONITOR_EVENT_DELETED
  | G_FILE_MONITOR_EVENT_CREATED
  | G_FILE_MONITOR_EVENT_ATTRIBUTE_CHANGED
  | G_FILE_MONITOR_EVENT_PRE_UNMOUNT
  | G_FILE_MONITOR_EVENT_UNMOUNTED
  | G_FILE_MONITOR_EVENT_MOVED
  | G_FILE_MONITOR_EVENT_RENAMED
  | G_FILE_MONITOR_EVENT_MOVED_IN
  | G_FILE_MONITOR_EVENT_MOVED_OUT

text \<open>
  The \<^verbatim>\<open>GFile *file\<close> of an event is given by what \<^verbatim>\<open>g_file_get_basename\<close> returns
  for it, \<open>None\<close> for a \<^verbatim>\<open>NULL\<close> file.
\<close>

definition on_dir_monitor_changed ::
  "glib \<Rightarrow> host \<Rightarrow> authority \<Rightarrow> string option \<Rightarrow> GFileMonitorEvent \<Rightarrow> fault + authority" where
  "on_dir_monitor_changed x h s file event_type =
     (case file of
        None \<Rightarrow> Inr s
      | Some name \<Rightarrow>
          if \<not> g_str_has_prefix name ''.'' \<and> \<not> g_str_has_prefix name ''#''
             \<and> g_str_has_suffix name ''.keyrules''
             \<and> (event_type = G_FILE_MONITOR_EVENT_CREATED
                \<or> event_type = G_FILE_MONITOR_EVENT_DELETED
                \<or> event_type = G_FILE_MONITOR_EVENT_CHANGES_DONE_HINT)
          then reload_scripts x h (polkit_backend_authority_log s ReloadingRules)
          else Inr s)"

subsection \<open>The evaluation entry points\<close>

datatype PolkitImplicitAuthorization =
    POLKIT_IMPLICIT_AUTHORIZATION_UNKNOWN
  | POLKIT_IMPLICIT_AUTHORIZATION_NOT_AUTHORIZED
  | POLKIT_IMPLICIT_AUTHORIZATION_AUTHENTICATION_REQUIRED
  | POLKIT_IMPLICIT_AUTHORIZATION_ADMINISTRATOR_AUTHENTICATION_REQUIRED
  | POLKIT_IMPLICIT_AUTHORIZATION_AUTHENTICATION_REQUIRED_RETAINED
  | POLKIT_IMPLICIT_AUTHORIZATION_ADMINISTRATOR_AUTHENTICATION_REQUIRED_RETAINED
  | POLKIT_IMPLICIT_AUTHORIZATION_AUTHORIZED

datatype PolkitIdentity = PolkitUnixUser nat | PolkitUnixGroup nat

text \<open>
  The request as the interactive authority hands it over: the caller, the subject and
  its user, the two session flags, the action and its details.
\<close>

record request =
  caller :: string
  subject :: string
  user_for_subject :: PolkitIdentity
  subject_is_local :: bool
  subject_is_active :: bool
  action_id :: string
  details :: "(string \<times> string) list"

definition polkit_unix_user_new :: "nat \<Rightarrow> PolkitIdentity" where
  "polkit_unix_user_new uid = PolkitUnixUser uid"

definition polkit_backend_keyfile_authority_get_admin_auth_identities ::
  "authority \<Rightarrow> request \<Rightarrow> PolkitIdentity list" where
  "polkit_backend_keyfile_authority_get_admin_auth_identities s rq =
     (let ret = [] in
      if ret = [] then polkit_unix_user_new 0 # ret else ret)"

definition polkit_backend_keyfile_authority_check_authorization_sync ::
  "authority \<Rightarrow> request \<Rightarrow> PolkitImplicitAuthorization \<Rightarrow> PolkitImplicitAuthorization" where
  "polkit_backend_keyfile_authority_check_authorization_sync s rq implicit =
     POLKIT_IMPLICIT_AUTHORIZATION_NOT_AUTHORIZED"

subsection \<open>Notions the statements use\<close>

text \<open>
  A list segment of the store: \<open>list_seg st p as\<close> says that following \<^verbatim>\<open>next\<close> from
  \<open>p\<close> visits exactly the addresses \<open>as\<close> and ends at \<^verbatim>\<open>NULL\<close>.
\<close>

fun list_seg :: "(addr \<Rightarrow> PolicyFile option) \<Rightarrow> addr option \<Rightarrow> addr list \<Rightarrow> bool" where
  "list_seg st p [] = (p = None)"
| "list_seg st p (a # as) =
     (p = Some a \<and> (case st a of None \<Rightarrow> False | Some f \<Rightarrow> list_seg st (next_file f) as))"

definition rules_at :: "(addr \<Rightarrow> PolicyFile option) \<Rightarrow> addr \<Rightarrow> PolicyRules" where
  "rules_at st a = (case st a of None \<Rightarrow> \<lparr> normal = [], admin = [] \<rparr> | Some f \<Rightarrow> rules f)"

text \<open>
  The invariant of the loop of \<^verbatim>\<open>load_scripts\<close>: the chain is the segment \<open>as\<close> of
  distinct allocated addresses, and \<^verbatim>\<open>last\<close> is its last node.
\<close>

definition linked :: "authority \<Rightarrow> addr option \<Rightarrow> addr list \<Rightarrow> bool" where
  "linked s last_file as =
     (list_seg (store s) (policy s) as \<and> distinct as \<and> (\<forall>a \<in> set as. a < next_addr s)
      \<and> last_file = (if as = [] then None else Some (last as)))"

text \<open>
  The order the comparator decides: the text behind the last slash first, and the whole
  path between two paths that agree there; both compared as \<^verbatim>\<open>strcmp\<close> does.
\<close>

definition basename :: "string \<Rightarrow> string" where
  "basename p = (case strrchr_slash p of None \<Rightarrow> p | Some b \<Rightarrow> b)"

definition file_before :: "string \<Rightarrow> string \<Rightarrow> bool" where
  "file_before a b =
     (g_strcmp0 (basename a) (basename b) < 0
      \<or> (basename a = basename b \<and> g_strcmp0 a b < 0))"

text \<open>The paths a load pass discovers in the directories \<open>dirs\<close>.\<close>

definition discovered :: "host \<Rightarrow> string list \<Rightarrow> string set" where
  "discovered h dirs =
     {p. \<exists>d names n. d \<in> set dirs \<and> dir_names h d = Some names \<and> n \<in> set names
           \<and> g_str_has_suffix n ''.keyrules'' \<and> p = d @ ''/'' @ n}"

definition configured_dirs :: "authority \<Rightarrow> string list" where
  "configured_dirs s = (case rules_dirs s of None \<Rightarrow> [] | Some dirs \<Rightarrow> dirs)"

text \<open>
  The events the specification names: the file's name does not begin with the hidden-file
  marker \<^verbatim>\<open>.\<close> or the editor marker \<^verbatim>\<open>#\<close>, it ends with \<^verbatim>\<open>.keyrules\<close>, and the event is
  a create, a delete or a changes-done hint.
\<close>

fun begins_with_marker :: "string \<Rightarrow> bool" where
  "begins_with_marker [] = False"
| "begins_with_marker (c # cs) = (c = CHR ''.'' \<or> c = CHR ''#'')"

definition rule_file_event :: "string option \<Rightarrow> GFileMonitorEvent \<Rightarrow> bool" where
  "rule_file_event file event_type =
     (case file of
        None \<Rightarrow> False
      | Some name \<Rightarrow>
          \<not> begins_with_marker name \<and> (\<exists>stem. name = stem @ ''.keyrules'')
          \<and> (event_type = G_FILE_MONITOR_EVENT_CREATED
             \<or> event_type = G_FILE_MONITOR_EVENT_DELETED
             \<or> event_type = G_FILE_MONITOR_EVENT_CHANGES_DONE_HINT))"

subsection \<open>The evaluation the specification describes\<close>

text \<open>
  The two entry points of the C file do not read the chain. What the specification asks
  of them (its sections 4.4 and 4.5) is written down here from its words, to be compared
  with the code: the subject context, the match of one rule, the first-match walk over
  the normal lists that falls back to the implicit default, and the additive walk over
  the admin lists. The lookups from names to user and group ids are parameters.
\<close>

record subject_context =
  user_name :: string
  in_unix_groups :: "string list"
  in_net_groups :: "string list"
  is_local :: bool
  is_active :: bool
  action :: string

fun str_contains :: "string \<Rightarrow> string \<Rightarrow> bool" where
  "str_contains [] sub = (sub = [])"
| "str_contains (c # cs) sub = (g_str_has_prefix (c # cs) sub \<or> str_contains cs sub)"

definition spec_satisfied :: "Policy \<Rightarrow> subject_context \<Rightarrow> bool" where
  "spec_satisfied p ctx =
     ((if PF_CONSTRAINT_ACTIONS \<in> constraints p \<or> PF_CONSTRAINT_ACTION_CONTAINS \<in> constraints p
       then (PF_CONSTRAINT_ACTIONS \<in> constraints p
             \<and> (action ctx \<in> set (actions p) \<or> ''*'' \<in> set (actions p)))
            \<or> (PF_CONSTRAINT_ACTION_CONTAINS \<in> constraints p
                \<and> list_ex (str_contains (action ctx)) (action_contains p))
       else True)
      \<and> (if PF_CONSTRAINT_UNIX_GROUPS \<in> constraints p
          then list_ex (\<lambda>g. g \<in> set (in_unix_groups ctx)) (unix_groups p) else True)
      \<and> (if PF_CONSTRAINT_NET_GROUPS \<in> constraints p
          then list_ex (\<lambda>g. g \<in> set (in_net_groups ctx)) (net_groups p) else True)
      \<and> (if PF_CONSTRAINT_UNIX_NAMES \<in> constraints p
          then user_name ctx \<in> set (unix_names p) else True)
      \<and> (if PF_CONSTRAINT_SUBJECT_ACTIVE \<in> constraints p
          then is_active ctx = require_active p else True)
      \<and> (if PF_CONSTRAINT_SUBJECT_LOCAL \<in> constraints p
          then is_local ctx = require_local p else True))"

fun spec_walk :: "Policy list \<Rightarrow> subject_context \<Rightarrow> PolkitResponse option" where
  "spec_walk [] ctx = None"
| "spec_walk (p # ps) ctx =
     (if spec_satisfied p ctx \<and> PF_CONSTRAINT_RESULT \<in> constraints p then Some (response p)
      else if \<not> spec_satisfied p ctx \<and> PF_CONSTRAINT_RESULT_INVERSE \<in> constraints p
      then Some (response_inverse p)
      else spec_walk ps ctx)"

fun response_verdict :: "PolkitResponse \<Rightarrow> PolkitImplicitAuthorization" where
  "response_verdict PK_RESPONSE_NO = POLKIT_IMPLICIT_AUTHORIZATION_NOT_AUTHORIZED"
| "response_verdict PK_RESPONSE_YES = POLKIT_IMPLICIT_AUTHORIZATION_AUTHORIZED"
| "response_verdict PK_RESPONSE_AUTH_SELF = POLKIT_IMPLICIT_AUTHORIZATION_AUTHENTICATION_REQUIRED"
| "response_verdict PK_RESPONSE_AUTH_SELF_KEEP =
     POLKIT_IMPLICIT_AUTHORIZATION_AUTHENTICATION_REQUIRED_RETAINED"
| "response_verdict PK_RESPONSE_AUTH_ADMIN =
     POLKIT_IMPLICIT_AUTHORIZATION_ADMINISTRATOR_AUTHENTICATION_REQUIRED"
| "response_verdict PK_RESPONSE_AUTH_ADMIN_KEEP =
     POLKIT_IMPLICIT_AUTHORIZATION_ADMINISTRATOR_AUTHENTICATION_REQUIRED_RETAINED"
| "response_verdict PK_RESPONSE_UNHANDLED = POLKIT_IMPLICIT_AUTHORIZATION_UNKNOWN"

definition spec_evaluate ::
  "PolicyRules list \<Rightarrow> subject_context \<Rightarrow> PolkitImplicitAuthorization \<Rightarrow>
   PolkitImplicitAuthorization" where
  "spec_evaluate ch ctx implicit =
     (case spec_walk (concat (map normal ch)) ctx of
        None \<Rightarrow> implicit
      | Some r \<Rightarrow> response_verdict r)"

definition spec_rule_identities ::
  "(string \<Rightarrow> nat option) \<Rightarrow> (string \<Rightarrow> nat option) \<Rightarrow> Policy \<Rightarrow> PolkitIdentity list" where
  "spec_rule_identities uid_of gid_of p =
     List.map_filter (\<lambda>n. map_option PolkitUnixUser (uid_of n)) (unix_names p)
     @ List.map_filter (\<lambda>g. map_option PolkitUnixGroup (gid_of g)) (unix_groups p)"

definition spec_resolve_admins ::
  "(string \<Rightarrow> nat option) \<Rightarrow> (string \<Rightarrow> nat option) \<Rightarrow> PolicyRules list \<Rightarrow>
   subject_context \<Rightarrow> PolkitIdentity list" where
  "spec_resolve_admins uid_of gid_of ch ctx =
     concat (map (spec_rule_identities uid_of gid_of)
               (filter (\<lambda>p. spec_satisfied p ctx) (concat (map admin ch))))"

subsection \<open>The rule set a well-formed file stands for\<close>

text \<open>
  Written from the specification's data model and parser contract (its sections 3 and
  4.1), to be compared with the parser: the value a key has in a section, the rule a
  section stands for field by field, and the rule set of a file. The list, the response
  and the boolean under a key are what GLib reads there; under an absent key they are
  the empty list, the zero-filled response and \<^verbatim>\<open>FALSE\<close>. The constraint mask holds
  the flag of every recognised key the section has.
\<close>

definition list_under :: "glib \<Rightarrow> GKeyFile \<Rightarrow> string \<Rightarrow> string \<Rightarrow> string list" where
  "list_under x kf group_name key =
     (case g_key_file_get_string_list x kf group_name key of Inl e \<Rightarrow> [] | Inr v \<Rightarrow> v)"

definition response_under :: "glib \<Rightarrow> GKeyFile \<Rightarrow> string \<Rightarrow> string \<Rightarrow> PolkitResponse" where
  "response_under x kf group_name key =
     (case g_key_file_get_string x kf group_name key of
        Inl e \<Rightarrow> zero_response x
      | Inr v \<Rightarrow> policy_string_to_result (g_strstrip v))"

definition boolean_under :: "glib \<Rightarrow> GKeyFile \<Rightarrow> string \<Rightarrow> string \<Rightarrow> bool" where
  "boolean_under x kf group_name key =
     (case g_key_file_get_boolean x kf group_name key of Inl e \<Rightarrow> False | Inr b \<Rightarrow> b)"

definition key_flags :: "(string \<times> PolicyConstraint) list" where
  "key_flags =
     [(''Actions'', PF_CONSTRAINT_ACTIONS),
      (''ActionContains'', PF_CONSTRAINT_ACTION_CONTAINS),
      (''InUnixGroups'', PF_CONSTRAINT_UNIX_GROUPS),
      (''InNetGroups'', PF_CONSTRAINT_NET_GROUPS),
      (''Result'', PF_CONSTRAINT_RESULT),
      (''ResultInverse'', PF_CONSTRAINT_RESULT_INVERSE),
      (''InUserNames'', PF_CONSTRAINT_UNIX_NAMES),
      (''SubjectActive'', PF_CONSTRAINT_SUBJECT_ACTIVE),
      (''SubjectLocal'', PF_CONSTRAINT_SUBJECT_LOCAL)]"

definition expected_rule :: "glib \<Rightarrow> GKeyFile \<Rightarrow> string \<Rightarrow> Policy" where
  "expected_rule x kf section_id =
     \<lparr> policy_id = section_id,
       actions = list_under x kf section_id ''Actions'',
       n_actions = length (list_under x kf section_id ''Actions''),
       action_contains = list_under x kf section_id ''ActionContains'',
       n_action_contains = length (list_under x kf section_id ''ActionContains''),
       unix_groups = list_under x kf section_id ''InUnixGroups'',
       n_unix_groups = length (list_under x kf section_id ''InUnixGroups''),
       net_groups = list_under x kf section_id ''InNetGroups'',
       n_net_groups = length (list_under x kf section_id ''InNetGroups''),
       unix_names = list_under x kf section_id ''InUserNames'',
       n_unix_names = length (list_under x kf section_id ''InUserNames''),
       response = response_under x kf section_id ''Result'',
       response_inverse = response_under x kf section_id ''ResultInverse'',
       require_active = boolean_under x kf section_id ''SubjectActive'',
       require_local = boolean_under x kf section_id ''SubjectLocal'',
       constraints =
         set (map snd (filter (\<lambda>(key, flag). g_key_file_has_key kf section_id key) key_flags)) \<rparr>"

text \<open>
  A section is well formed when it exists and every recognised key it has reads as the
  type the parser asks for, a result key as one of the six keywords. A section with
  \<^verbatim>\<open>ResultInverse\<close> and without \<^verbatim>\<open>Result\<close> is counted only where the zero-filled
  response is not \<^verbatim>\<open>PK_RESPONSE_UNHANDLED\<close>: the parser tests the response field at
  that point, and which enumerator is zero is decided by the absent header. A file is
  well formed when \<^verbatim>\<open>[Policy]\<close> has both lists and every section they name is well
  formed.
\<close>

definition well_formed_section :: "glib \<Rightarrow> GKeyFile \<Rightarrow> string \<Rightarrow> bool" where
  "well_formed_section x kf section_id =
     (g_key_file_has_group kf section_id
      \<and> (\<forall>key \<in> {''Actions'', ''ActionContains'', ''InUnixGroups'', ''InNetGroups'', ''InUserNames''}.
            g_key_file_has_key kf section_id key \<longrightarrow>
            (\<exists>v. g_key_file_get_string_list x kf section_id key = Inr v))
      \<and> (\<forall>key \<in> {''Result'', ''ResultInverse''}.
            g_key_file_has_key kf section_id key \<longrightarrow>
            (\<exists>v. g_key_file_get_string x kf section_id key = Inr v
                 \<and> policy_string_to_result (g_strstrip v) \<noteq> PK_RESPONSE_UNHANDLED))
      \<and> (g_key_file_has_key kf section_id ''ResultInverse'' \<longrightarrow>
            g_key_file_has_key kf section_id ''Result''
            \<or> zero_response x \<noteq> PK_RESPONSE_UNHANDLED)
      \<and> (\<forall>key \<in> {''SubjectActive'', ''SubjectLocal''}.
            g_key_file_has_key kf section_id key \<longrightarrow>
            (\<exists>b. g_key_file_get_boolean x kf section_id key = Inr b)))"

definition well_formed :: "glib \<Rightarrow> GKeyFile \<Rightarrow> bool" where
  "well_formed x kf =
     ((\<exists>ids. g_key_file_get_string_list x kf POLICY_SECTION ''Rules'' = Inr ids)
      \<and> (\<exists>ids. g_key_file_get_string_list x kf POLICY_SECTION ''AdminRules'' = Inr ids)
      \<and> (\<forall>s \<in> set (list_under x kf POLICY_SECTION ''Rules'')
                \<union> set (list_under x kf POLICY_SECTION ''AdminRules'').
            well_formed_section x kf (g_strstrip s)))"

definition expected_rules :: "glib \<Rightarrow> GKeyFile \<Rightarrow> PolicyRules" where
  "expected_rules x kf =
     \<lparr> normal = map (\<lambda>s. expected_rule x kf (g_strstrip s)) (list_under x kf POLICY_SECTION ''Rules''),
       admin = map (\<lambda>s. expected_rule x kf (g_strstrip s))
                 (list_under x kf POLICY_SECTION ''AdminRules'') \<rparr>"

text \<open>Or-ing one flag into the mask when its key is present.\<close>

definition mark :: "bool \<Rightarrow> PolicyConstraint \<Rightarrow> Policy \<Rightarrow> Policy" where
  "mark c flag p = constraints_update (\<lambda>S. (if c then {flag} else {}) \<union> S) p"

subsection \<open>Example inputs\<close>

text \<open>
  One reading of raw values for the examples: a string is its raw text, a list is cut
  at every \<^verbatim>\<open>;\<close> (a last empty piece is dropped), a boolean is \<^verbatim>\<open>true\<close> or
  \<^verbatim>\<open>false\<close>.
\<close>

fun pieces :: "string \<Rightarrow> string \<Rightarrow> string list" where
  "pieces acc [] = (if acc = [] then [] else [rev acc])"
| "pieces acc (c # cs) =
     (if c = CHR '';'' then rev acc # pieces [] cs else pieces (c # acc) cs)"

definition glib_plain :: glib where
  "glib_plain =
     \<lparr> as_string = Some,
       as_string_list = (\<lambda>raw. Some (pieces [] raw)),
       as_boolean = (\<lambda>raw. if raw = ''true'' then Some True
                            else if raw = ''false'' then Some False else None),
       zero_response = PK_RESPONSE_NO \<rparr>"

definition kf_one_rule :: GKeyFile where
  "kf_one_rule =
     [''Policy'' \<mapsto> [''Rules'' \<mapsto> ''R1'', ''AdminRules'' \<mapsto> ''''],
      ''R1'' \<mapsto> [''InUnixGroups'' \<mapsto> ''wheel'', ''Result'' \<mapsto> '' Auth_Admin '']]"

definition kf_dangling :: GKeyFile where
  "kf_dangling =
     [''Policy'' \<mapsto> [''Rules'' \<mapsto> ''R1; R2'', ''AdminRules'' \<mapsto> ''''],
      ''R1'' \<mapsto> [''Result'' \<mapsto> ''yes'']]"

definition kf_no_policy :: GKeyFile where
  "kf_no_policy = [''R1'' \<mapsto> [''Result'' \<mapsto> ''yes'']]"

definition kf_no_rules :: GKeyFile where
  "kf_no_rules =
     [''Policy'' \<mapsto> [''AdminRules'' \<mapsto> ''R1''],
      ''R1'' \<mapsto> [''Result'' \<mapsto> ''yes'']]"

definition kf_no_admin_rules :: GKeyFile where
  "kf_no_admin_rules =
     [''Policy'' \<mapsto> [''Rules'' \<mapsto> ''R1''],
      ''R1'' \<mapsto> [''Result'' \<mapsto> ''yes'']]"

definition kf_bad_inverse :: GKeyFile where
  "kf_bad_inverse =
     [''Policy'' \<mapsto> [''Rules'' \<mapsto> ''R1'', ''AdminRules'' \<mapsto> ''''],
      ''R1'' \<mapsto> [''Result'' \<mapsto> ''yes'', ''ResultInverse'' \<mapsto> ''maybe'']]"

definition kf_bad_result :: GKeyFile where
  "kf_bad_result =
     [''Policy'' \<mapsto> [''Rules'' \<mapsto> ''R1'', ''AdminRules'' \<mapsto> ''''],
      ''R1'' \<mapsto> [''Result'' \<mapsto> ''maybe'']]"

definition kf_yes :: GKeyFile where
  "kf_yes =
     [''Policy'' \<mapsto> [''Rules'' \<mapsto> ''R1'', ''AdminRules'' \<mapsto> ''''],
      ''R1'' \<mapsto> [''Result'' \<mapsto> ''yes'']]"

definition kf_no :: GKeyFile where
  "kf_no =
     [''Policy'' \<mapsto> [''Rules'' \<mapsto> ''R1'', ''AdminRules'' \<mapsto> ''''],
      ''R1'' \<mapsto> [''Result'' \<mapsto> ''no'']]"

definition rules_yes :: PolicyRules where
  "rules_yes =
     \<lparr> normal = [(policy_new0 glib_plain ''R1'')
                   \<lparr> response := PK_RESPONSE_YES, constraints := {PF_CONSTRAINT_RESULT} \<rparr>],
       admin = [] \<rparr>"

definition rules_no :: PolicyRules where
  "rules_no =
     \<lparr> normal = [(policy_new0 glib_plain ''R1'')
                   \<lparr> response := PK_RESPONSE_NO, constraints := {PF_CONSTRAINT_RESULT} \<rparr>],
       admin = [] \<rparr>"

text \<open>Two directories that each hold a rule file of the same name.\<close>

definition host_same_name :: host where
  "host_same_name =
     \<lparr> dir_names = [''/usr'' \<mapsto> [''a.keyrules'', ''README''], ''/etc'' \<mapsto> [''a.keyrules'']],
       key_file = [''/usr/a.keyrules'' \<mapsto> kf_yes, ''/etc/a.keyrules'' \<mapsto> kf_no] \<rparr>"

definition authority_usr_first :: authority where
  "authority_usr_first =
     \<lparr> rules_dirs = Some [''/usr'', ''/etc''], policy = None, store = Map.empty,
       next_addr = 0, logged = [], changed_signals = 0 \<rparr>"

text \<open>An authority that holds a chain of one file from an earlier load.\<close>

definition authority_old_chain :: authority where
  "authority_old_chain =
     \<lparr> rules_dirs = Some [''/etc'', ''/usr''], policy = Some 0,
       store = [0 \<mapsto> \<lparr> rules = rules_yes, next_file = None \<rparr>],
       next_addr = Suc 0, logged = [], changed_signals = 0 \<rparr>"

text \<open>One directory with a file that does not parse and a file that does.\<close>

definition host_one_bad :: host where
  "host_one_bad =
     \<lparr> dir_names = [''/etc'' \<mapsto> [''bad.keyrules'', ''good.keyrules'']],
       key_file = [''/etc/bad.keyrules'' \<mapsto> kf_no_policy, ''/etc/good.keyrules'' \<mapsto> kf_yes] \<rparr>"

definition authority_etc :: authority where
  "authority_etc =
     \<lparr> rules_dirs = Some [''/etc''], policy = None, store = Map.empty,
       next_addr = 0, logged = [], changed_signals = 0 \<rparr>"

text \<open>Two files that each declare one admin rule, and a subject that satisfies both.\<close>

definition kf_admin_alice :: GKeyFile where
  "kf_admin_alice =
     [''Policy'' \<mapsto> [''Rules'' \<mapsto> '''', ''AdminRules'' \<mapsto> ''A1''],
      ''A1'' \<mapsto> [''InUserNames'' \<mapsto> ''alice'']]"

definition kf_admin_wheel :: GKeyFile where
  "kf_admin_wheel =
     [''Policy'' \<mapsto> [''Rules'' \<mapsto> '''', ''AdminRules'' \<mapsto> ''A2''],
      ''A2'' \<mapsto> [''InUnixGroups'' \<mapsto> ''wheel'']]"

definition host_two_admins :: host where
  "host_two_admins =
     \<lparr> dir_names = [''/etc'' \<mapsto> [''a.keyrules'', ''b.keyrules'']],
       key_file = [''/etc/a.keyrules'' \<mapsto> kf_admin_alice,
                   ''/etc/b.keyrules'' \<mapsto> kf_admin_wheel] \<rparr>"

definition request_alice :: request where
  "request_alice =
     \<lparr> caller = ''system-bus-name::1.42'', subject = ''unix-process:4711'',
       user_for_subject = PolkitUnixUser 1000, subject_is_local = True,
       subject_is_active = True, action_id = ''org.example.action1'', details = [] \<rparr>"

definition context_alice :: subject_context where
  "context_alice =
     \<lparr> user_name = ''alice'', in_unix_groups = [''wheel''], in_net_groups = [],
       is_local = True, is_active = True, action = ''org.example.action1'' \<rparr>"

definition ids_example :: "string \<Rightarrow> nat option" where
  "ids_example = [''alice'' \<mapsto> 1000, ''wheel'' \<mapsto> 10]"

text \<open>A file whose first rule has every recognised key, and the rule set it stands for.\<close>

definition kf_every_key :: GKeyFile where
  "kf_every_key =
     [''Policy'' \<mapsto> [''Rules'' \<mapsto> ''Mount; Halt'', ''AdminRules'' \<mapsto> ''Admins''],
      ''Mount'' \<mapsto>
        [''Actions'' \<mapsto> ''org.x.mount;org.x.eject'',
         ''ActionContains'' \<mapsto> ''udisks'',
         ''InUnixGroups'' \<mapsto> ''wheel;disk'',
         ''InNetGroups'' \<mapsto> ''ops'',
         ''InUserNames'' \<mapsto> ''alice'',
         ''Result'' \<mapsto> ''YES'',
         ''ResultInverse'' \<mapsto> '' auth_admin '',
         ''SubjectActive'' \<mapsto> ''true'',
         ''SubjectLocal'' \<mapsto> ''false''],
      ''Halt'' \<mapsto> [''Result'' \<mapsto> ''no''],
      ''Admins'' \<mapsto> [''InUnixGroups'' \<mapsto> ''wheel'']]"

definition rules_every_key :: PolicyRules where
  "rules_every_key =
     \<lparr> normal =
         [\<lparr> policy_id = ''Mount'',
            actions = [''org.x.mount'', ''org.x.eject''], n_actions = 2,
            action_contains = [''udisks''], n_action_contains = 1,
            unix_groups = [''wheel'', ''disk''], n_unix_groups = 2,
            net_groups = [''ops''], n_net_groups = 1,
            unix_names = [''alice''], n_unix_names = 1,
            response = PK_RESPONSE_YES,
            response_inverse = PK_RESPONSE_AUTH_ADMIN,
            require_active = True,
            require_local = False,
            constraints =
              {PF_CONSTRAINT_ACTIONS, PF_CONSTRAINT_ACTION_CONTAINS, PF_CONSTRAINT_UNIX_GROUPS,
               PF_CONSTRAINT_NET_GROUPS, PF_CONSTRAINT_RESULT, PF_CONSTRAINT_RESULT_INVERSE,
               PF_CONSTRAINT_UNIX_NAMES, PF_CONSTRAINT_SUBJECT_ACTIVE,
               PF_CONSTRAINT_SUBJECT_LOCAL} \<rparr>,
          \<lparr> policy_id = ''Halt'',
            actions = [], n_actions = 0,
            action_contains = [], n_action_contains = 0,
            unix_groups = [], n_unix_groups = 0,
            net_groups = [], n_net_groups = 0,
            unix_names = [], n_unix_names = 0,
            response = PK_RESPONSE_NO,
            response_inverse = PK_RESPONSE_NO,
            require_active = False,
            require_local = False,
            constraints = {PF_CONSTRAINT_RESULT} \<rparr>],
       admin =
         [\<lparr> policy_id = ''Admins'',
            actions = [], n_actions = 0,
            action_contains = [], n_action_contains = 0,
            unix_groups = [''wheel''], n_unix_groups = 1,
            net_groups = [], n_net_groups = 0,
            unix_names = [], n_unix_names = 0,
            response = PK_RESPONSE_NO,
            response_inverse = PK_RESPONSE_NO,
            require_active = False,
            require_local = False,
            constraints = {PF_CONSTRAINT_UNIX_GROUPS} \<rparr>] \<rparr>"

text \<open>Files that reach \<^verbatim>\<open>handle_err\<close> before the failure the parser would report.\<close>

definition kf_dangling_bad_result :: GKeyFile where
  "kf_dangling_bad_result =
     [''Policy'' \<mapsto> [''Rules'' \<mapsto> ''R1;R2'', ''AdminRules'' \<mapsto> ''''],
      ''R1'' \<mapsto> [''Result'' \<mapsto> ''maybe'']]"

definition kf_no_admin_bad_result :: GKeyFile where
  "kf_no_admin_bad_result =
     [''Policy'' \<mapsto> [''Rules'' \<mapsto> ''R1''],
      ''R1'' \<mapsto> [''Result'' \<mapsto> ''maybe'']]"

section \<open>Properties of the rule parser\<close>

lemmas parser_defs =
  policy_file_new_from_path_def policy_file_load_rules_def policy_load_def policy_blocks_def
  load_string_list_def load_result_def load_result_inverse_def load_boolean_def handle_err_def
  g_key_file_get_string_list_def g_key_file_get_string_def g_key_file_get_boolean_def
  g_key_file_get_value_def typed_def g_key_file_has_key_def g_key_file_has_group_def
  policy_new0_def policy_string_to_result_def g_ascii_strdown_def g_ascii_tolower_def
  g_strstrip_def g_ascii_isspace_def POLICY_SECTION_def

lemma policy_load_missing:
  "\<not> g_key_file_has_group kf section_id \<Longrightarrow> policy_load x kf section_id = Inr None"
  by (simp add: policy_load_def)

lemma policy_load_fault:
  "policy_load x kf section_id = Inl f \<Longrightarrow> f = NullDereference"
  by (auto simp: policy_load_def handle_err_def split: if_splits sum.splits option.splits)

lemma load_rules_loop_missing:
  "s \<in> set sections \<Longrightarrow> \<not> g_key_file_has_group kf (g_strstrip s) \<Longrightarrow>
   load_rules_loop x kf sections target = Inl NullDereference
   \<or> (\<exists>t. load_rules_loop x kf sections target = Inr (False, t))"
proof (induction sections arbitrary: target)
  case Nil
  then show ?case by simp
next
  case (Cons a sections)
  show ?case
  proof (cases "policy_load x kf (g_strstrip a)")
    case (Inl f)
    then show ?thesis using policy_load_fault[OF Inl] by simp
  next
    case (Inr r)
    show ?thesis
    proof (cases r)
      case None
      then show ?thesis using Inr by simp
    next
      case (Some p)
      have "a \<noteq> s"
        using Some Inr Cons.prems(2) policy_load_missing[of kf "g_strstrip s" x] by auto
      then have "s \<in> set sections" using Cons.prems(1) by simp
      from Cons.IH[OF this Cons.prems(2)] show ?thesis using Inr Some by simp
    qed
  qed
qed

lemma load_rules_missing:
  assumes "g_key_file_get_string_list x kf POLICY_SECTION section = Inr ids"
    and "s \<in> set ids" and "\<not> g_key_file_has_group kf (g_strstrip s)"
  shows "policy_file_load_rules x kf section = Inl NullDereference
   \<or> (\<exists>t. policy_file_load_rules x kf section = Inr (False, t))"
  using load_rules_loop_missing[OF assms(2,3)] assms(1)
  by (simp add: policy_file_load_rules_def)

lemma load_rules_fault:
  "policy_file_load_rules x kf section = Inl f \<Longrightarrow> f = NullDereference"
proof -
  have "load_rules_loop x kf ss t = Inl f \<Longrightarrow> f = NullDereference" for ss t
  proof (induction ss arbitrary: t)
    case Nil then show ?case by simp
  next
    case (Cons a ss)
    then show ?case
      by (auto split: sum.splits option.splits dest: policy_load_fault)
  qed
  then show "policy_file_load_rules x kf section = Inl f \<Longrightarrow> f = NullDereference"
    by (auto simp: policy_file_load_rules_def split: sum.splits)
qed

lemma load_rules_no_key:
  "\<not> g_key_file_has_key kf POLICY_SECTION section \<Longrightarrow>
   policy_file_load_rules x kf section = Inr (False, [])"
  by (auto simp: policy_file_load_rules_def g_key_file_get_string_list_def typed_def
      g_key_file_get_value_def g_key_file_has_key_def split: option.splits)

lemma has_key_has_group:
  "g_key_file_has_key kf g k \<Longrightarrow> g_key_file_has_group kf g"
  by (auto simp: g_key_file_has_key_def g_key_file_has_group_def split: option.splits)

text \<open>
  \<^verbatim>\<open>policy_string_to_result\<close> recognises exactly the six keywords, in any mix of upper
  and lower case: every other text is \<^verbatim>\<open>PK_RESPONSE_UNHANDLED\<close>.
\<close>

lemma policy_string_to_result_keywords:
  "policy_string_to_result inp \<noteq> PK_RESPONSE_UNHANDLED \<longleftrightarrow>
   g_ascii_strdown inp \<in> {''no'', ''yes'', ''auth_self'', ''auth_self_keep'', ''auth_admin'',
     ''auth_admin_keep''}"
  by (simp add: policy_string_to_result_def Let_def)

text \<open>
  An unrecognised \<^verbatim>\<open>Result\<close> keyword takes \<^verbatim>\<open>policy_load\<close> to \<^verbatim>\<open>handle_err\<close> with
  \<^verbatim>\<open>err\<close> unset: the parse does not return.
\<close>

lemma bad_result_faults:
  "policy_file_new_from_path glib_plain (\<lambda>p. Some kf_bad_result) ''/etc/a.keyrules'' =
     Inl NullDereference"
  by (simp add: parser_defs glib_plain_def kf_bad_result_def)

text \<open>
  Claim C4 (the code departs from it). The claim: a \<^verbatim>\<open>Result\<close> or
  \<^verbatim>\<open>ResultInverse\<close> value outside the six keywords makes the parse of the whole file
  fail, for \<^verbatim>\<open>ResultInverse\<close> exactly as for \<^verbatim>\<open>Result\<close>. The code at the file
  \<open>kf_bad_inverse\<close>, whose rule has \<^verbatim>\<open>Result=yes\<close> and \<^verbatim>\<open>ResultInverse=maybe\<close>:
  the \<^verbatim>\<open>ResultInverse\<close> block tests \<^verbatim>\<open>policy->response\<close>, which holds the valid
  \<^verbatim>\<open>yes\<close>, so the file parses and the rule keeps \<^verbatim>\<open>PK_RESPONSE_UNHANDLED\<close> as its
  inverse response, with the \<^verbatim>\<open>PF_CONSTRAINT_RESULT_INVERSE\<close> flag set.
\<close>

theorem bad_result_inverse_is_accepted:
  "policy_file_new_from_path glib_plain (\<lambda>p. Some kf_bad_inverse) ''/etc/a.keyrules'' =
     Inr (Some \<lparr> normal =
        [(policy_new0 glib_plain ''R1'')
           \<lparr> response := PK_RESPONSE_YES, response_inverse := PK_RESPONSE_UNHANDLED,
             constraints := {PF_CONSTRAINT_RESULT, PF_CONSTRAINT_RESULT_INVERSE} \<rparr>],
        admin = [] \<rparr>)"
  by (simp add: parser_defs glib_plain_def kf_bad_inverse_def insert_commute)

text \<open>
  A section that a list names and the file does not have never lets the parse yield a
  rule set: the parse returns \<^verbatim>\<open>NULL\<close>, or it has died before in \<^verbatim>\<open>handle_err\<close>.
\<close>

lemma dangling_section_no_ruleset:
  assumes "fs path = Some kf"
    and "g_key_file_get_string_list x kf POLICY_SECTION ''Rules'' = Inr ids
         \<or> g_key_file_get_string_list x kf POLICY_SECTION ''AdminRules'' = Inr ids"
    and "s \<in> set ids"
    and "\<not> g_key_file_has_group kf (g_strstrip s)"
  shows "policy_file_new_from_path x fs path = Inr None
         \<or> policy_file_new_from_path x fs path = Inl NullDereference"
proof (cases "policy_file_load_rules x kf ''Rules''")
  case (Inl f)
  then show ?thesis using assms(1) load_rules_fault[OF Inl]
    by (simp add: policy_file_new_from_path_def)
next
  case (Inr r)
  obtain ok t where r: "r = (ok, t)" by (cases r)
  show ?thesis
  proof (cases ok)
    case False
    then show ?thesis using assms(1) Inr r by (simp add: policy_file_new_from_path_def)
  next
    case True
    have "g_key_file_get_string_list x kf POLICY_SECTION ''Rules'' \<noteq> Inr ids"
      using load_rules_missing[OF _ assms(3,4), of x "''Rules''"] Inr r True by auto
    then have adm: "g_key_file_get_string_list x kf POLICY_SECTION ''AdminRules'' = Inr ids"
      using assms(2) by blast
    from load_rules_missing[OF adm assms(3,4)] show ?thesis
      using assms(1) Inr r True
      by (auto simp: policy_file_new_from_path_def dest: load_rules_fault)
  qed
qed

lemma dangling_section_returns_null:
  "policy_file_new_from_path glib_plain (\<lambda>p. Some kf_dangling) ''/etc/a.keyrules'' = Inr None"
  by (simp add: parser_defs glib_plain_def kf_dangling_def)

text \<open>
  Claim C6 (the code departs from it). The claim: a file whose \<^verbatim>\<open>Rules\<close> or
  \<^verbatim>\<open>AdminRules\<close> names a section it does not have fails to parse and returns no rule
  set. The code on the file \<open>kf_dangling_bad_result\<close>, whose \<^verbatim>\<open>Rules\<close> names \<^verbatim>\<open>R1\<close> and
  the absent \<^verbatim>\<open>R2\<close>, and whose \<^verbatim>\<open>[R1]\<close> has \<^verbatim>\<open>Result=maybe\<close>: \<^verbatim>\<open>policy_load\<close> of
  \<^verbatim>\<open>R1\<close> jumps to \<^verbatim>\<open>handle_err\<close> with \<^verbatim>\<open>err\<close> unset and reads \<^verbatim>\<open>err->message\<close>
  (line 274), so the parse does not return at all and the absent section is never
  looked up.
\<close>

theorem dangling_section_faults:
  "g_key_file_get_string_list glib_plain kf_dangling_bad_result POLICY_SECTION ''Rules''
     = Inr [''R1'', ''R2'']
   \<and> \<not> g_key_file_has_group kf_dangling_bad_result (g_strstrip ''R2'')
   \<and> policy_file_new_from_path glib_plain (\<lambda>p. Some kf_dangling_bad_result) ''/etc/a.keyrules''
       = Inl NullDereference"
proof -
  have a: "g_key_file_get_string_list glib_plain kf_dangling_bad_result POLICY_SECTION ''Rules''
     = Inr [''R1'', ''R2'']"
    by (simp add: parser_defs glib_plain_def kf_dangling_bad_result_def)
  have b: "\<not> g_key_file_has_group kf_dangling_bad_result (g_strstrip ''R2'')"
    by (simp add: parser_defs kf_dangling_bad_result_def)
  have c: "policy_file_new_from_path glib_plain (\<lambda>p. Some kf_dangling_bad_result)
             ''/etc/a.keyrules'' = Inl NullDereference"
    by (simp add: parser_defs glib_plain_def kf_dangling_bad_result_def)
  show ?thesis using a b c by (intro conjI)
qed

text \<open>
  A file without \<^verbatim>\<open>[Policy]\<close>, without \<^verbatim>\<open>Rules\<close> or without \<^verbatim>\<open>AdminRules\<close> never
  lets the parse yield a rule set: the parse returns \<^verbatim>\<open>NULL\<close>, or, with \<^verbatim>\<open>Rules\<close>
  present, it has died before in \<^verbatim>\<open>handle_err\<close>.
\<close>

lemma rules_and_admin_rules_mandatory:
  assumes "fs path = Some kf"
    and "\<not> g_key_file_has_group kf POLICY_SECTION
         \<or> \<not> g_key_file_has_key kf POLICY_SECTION ''Rules''
         \<or> \<not> g_key_file_has_key kf POLICY_SECTION ''AdminRules''"
  shows "policy_file_new_from_path x fs path = Inr None
         \<or> (g_key_file_has_key kf POLICY_SECTION ''Rules''
            \<and> policy_file_new_from_path x fs path = Inl NullDereference)"
proof (cases "g_key_file_has_key kf POLICY_SECTION ''Rules''")
  case False
  from load_rules_no_key[OF False] show ?thesis
    using assms(1) by (simp add: policy_file_new_from_path_def)
next
  case True
  then have "\<not> g_key_file_has_key kf POLICY_SECTION ''AdminRules''"
    using assms(2) has_key_has_group by blast
  from load_rules_no_key[OF this] show ?thesis
    using assms(1) True
    by (auto simp: policy_file_new_from_path_def split: sum.splits dest: load_rules_fault)
qed

lemma missing_keys_return_null:
  "policy_file_new_from_path glib_plain (\<lambda>p. Some kf_no_policy) ''/etc/a.keyrules'' = Inr None"
  "policy_file_new_from_path glib_plain (\<lambda>p. Some kf_no_rules) ''/etc/a.keyrules'' = Inr None"
  "policy_file_new_from_path glib_plain (\<lambda>p. Some kf_no_admin_rules) ''/etc/a.keyrules''
     = Inr None"
  by (simp_all add: parser_defs glib_plain_def kf_no_policy_def kf_no_rules_def
      kf_no_admin_rules_def)

text \<open>
  Claim C10 (the code departs from it). The claim: a key file whose \<^verbatim>\<open>[Policy]\<close> is
  missing, or lacks \<^verbatim>\<open>Rules\<close>, or lacks \<^verbatim>\<open>AdminRules\<close>, fails to parse and returns no
  rule set. The code on the file \<open>kf_no_admin_bad_result\<close>, which has \<^verbatim>\<open>Rules=R1\<close>, no
  \<^verbatim>\<open>AdminRules\<close> and \<^verbatim>\<open>Result=maybe\<close> in \<^verbatim>\<open>[R1]\<close>: the rules under \<^verbatim>\<open>Rules\<close> are
  loaded first, \<^verbatim>\<open>policy_load\<close> of \<^verbatim>\<open>R1\<close> jumps to \<^verbatim>\<open>handle_err\<close> with \<^verbatim>\<open>err\<close> unset
  and reads \<^verbatim>\<open>err->message\<close> (line 274), so the parse does not return at all and
  \<^verbatim>\<open>AdminRules\<close> is never read.
\<close>

theorem missing_admin_rules_faults:
  "g_key_file_has_key kf_no_admin_bad_result POLICY_SECTION ''Rules''
   \<and> \<not> g_key_file_has_key kf_no_admin_bad_result POLICY_SECTION ''AdminRules''
   \<and> policy_file_new_from_path glib_plain (\<lambda>p. Some kf_no_admin_bad_result) ''/etc/a.keyrules''
       = Inl NullDereference"
proof -
  have a: "g_key_file_has_key kf_no_admin_bad_result POLICY_SECTION ''Rules''"
    and b: "\<not> g_key_file_has_key kf_no_admin_bad_result POLICY_SECTION ''AdminRules''"
    by (simp_all add: parser_defs kf_no_admin_bad_result_def)
  have c: "policy_file_new_from_path glib_plain (\<lambda>p. Some kf_no_admin_bad_result)
             ''/etc/a.keyrules'' = Inl NullDereference"
    by (simp add: parser_defs glib_plain_def kf_no_admin_bad_result_def)
  show ?thesis using a b c by (intro conjI)
qed

subsection \<open>The parse of a well-formed file\<close>

lemma list_under_absent: "\<not> g_key_file_has_key kf g k \<Longrightarrow> list_under x kf g k = []"
  by (auto simp: list_under_def g_key_file_get_string_list_def typed_def g_key_file_get_value_def
      g_key_file_has_key_def split: option.splits)

lemma response_under_absent: "\<not> g_key_file_has_key kf g k \<Longrightarrow> response_under x kf g k = zero_response x"
  by (auto simp: response_under_def g_key_file_get_string_def typed_def g_key_file_get_value_def
      g_key_file_has_key_def split: option.splits)

lemma boolean_under_absent: "\<not> g_key_file_has_key kf g k \<Longrightarrow> boolean_under x kf g k = False"
  by (auto simp: boolean_under_def g_key_file_get_boolean_def typed_def g_key_file_get_value_def
      g_key_file_has_key_def split: option.splits)

lemma load_string_list_ok:
  assumes "g_key_file_has_key kf sid key \<longrightarrow> (\<exists>v. g_key_file_get_string_list x kf sid key = Inr v)"
  shows "load_string_list x kf sid key st flag p =
     Inr (if g_key_file_has_key kf sid key
          then (st (list_under x kf sid key) p) \<lparr> constraints := insert flag (constraints p) \<rparr>
          else p)"
  using assms by (auto simp: load_string_list_def list_under_def)

lemma load_boolean_ok:
  assumes "g_key_file_has_key kf sid key \<longrightarrow> (\<exists>v. g_key_file_get_boolean x kf sid key = Inr v)"
  shows "load_boolean x kf sid key st flag p =
     Inr (if g_key_file_has_key kf sid key
          then (st (boolean_under x kf sid key) p) \<lparr> constraints := insert flag (constraints p) \<rparr>
          else p)"
  using assms by (auto simp: load_boolean_def boolean_under_def)

lemma load_result_ok:
  assumes "g_key_file_has_key kf sid ''Result'' \<longrightarrow>
     (\<exists>v. g_key_file_get_string x kf sid ''Result'' = Inr v
          \<and> policy_string_to_result (g_strstrip v) \<noteq> PK_RESPONSE_UNHANDLED)"
  shows "load_result x kf sid p =
     Inr (if g_key_file_has_key kf sid ''Result''
          then p \<lparr> response := response_under x kf sid ''Result'',
                   constraints := insert PF_CONSTRAINT_RESULT (constraints p) \<rparr>
          else p)"
  using assms by (auto simp: load_result_def response_under_def Let_def)

lemma load_result_inverse_ok:
  assumes "g_key_file_has_key kf sid ''ResultInverse'' \<longrightarrow>
     (\<exists>v. g_key_file_get_string x kf sid ''ResultInverse'' = Inr v)
     \<and> response p \<noteq> PK_RESPONSE_UNHANDLED"
  shows "load_result_inverse x kf sid p =
     Inr (if g_key_file_has_key kf sid ''ResultInverse''
          then p \<lparr> response_inverse := response_under x kf sid ''ResultInverse'',
                   constraints := insert PF_CONSTRAINT_RESULT_INVERSE (constraints p) \<rparr>
          else p)"
  using assms by (auto simp: load_result_inverse_def response_under_def Let_def)

lemma flags_cons:
  "set (map snd (filter P (kf # kfs))) = (if P kf then {snd kf} else {}) \<union> set (map snd (filter P kfs))"
  by simp

lemma mem_if_single: "y \<in> (if c then {f} else {}) \<longleftrightarrow> c \<and> y = f"
  by simp

lemma mark_sel [simp]:
  "policy_id (mark c flag p) = policy_id p"
  "actions (mark c flag p) = actions p" "n_actions (mark c flag p) = n_actions p"
  "action_contains (mark c flag p) = action_contains p"
  "n_action_contains (mark c flag p) = n_action_contains p"
  "unix_groups (mark c flag p) = unix_groups p" "n_unix_groups (mark c flag p) = n_unix_groups p"
  "net_groups (mark c flag p) = net_groups p" "n_net_groups (mark c flag p) = n_net_groups p"
  "unix_names (mark c flag p) = unix_names p" "n_unix_names (mark c flag p) = n_unix_names p"
  "response (mark c flag p) = response p" "response_inverse (mark c flag p) = response_inverse p"
  "require_active (mark c flag p) = require_active p"
  "require_local (mark c flag p) = require_local p"
  "constraints (mark c flag p) = (if c then {flag} else {}) \<union> constraints p"
  by (simp_all add: mark_def)

lemma block_actions:
  assumes "g_key_file_has_key kf sid ''Actions'' \<longrightarrow>
           (\<exists>v. g_key_file_get_string_list x kf sid ''Actions'' = Inr v)"
    and "actions p = []" and "n_actions p = 0"
  shows "load_string_list x kf sid ''Actions''
           (\<lambda>v p. p \<lparr> actions := v, n_actions := length v \<rparr>) flag p
         = Inr (mark (g_key_file_has_key kf sid ''Actions'') flag
                 (p \<lparr> actions := list_under x kf sid ''Actions'',
                      n_actions := length (list_under x kf sid ''Actions'') \<rparr>))"
  using assms(2,3) unfolding load_string_list_ok[OF assms(1)]
  by (cases p) (simp add: mark_def list_under_absent)

lemma block_action_contains:
  assumes "g_key_file_has_key kf sid ''ActionContains'' \<longrightarrow>
           (\<exists>v. g_key_file_get_string_list x kf sid ''ActionContains'' = Inr v)"
    and "action_contains p = []" and "n_action_contains p = 0"
  shows "load_string_list x kf sid ''ActionContains''
           (\<lambda>v p. p \<lparr> action_contains := v, n_action_contains := length v \<rparr>) flag p
         = Inr (mark (g_key_file_has_key kf sid ''ActionContains'') flag
                 (p \<lparr> action_contains := list_under x kf sid ''ActionContains'',
                      n_action_contains := length (list_under x kf sid ''ActionContains'') \<rparr>))"
  using assms(2,3) unfolding load_string_list_ok[OF assms(1)]
  by (cases p) (simp add: mark_def list_under_absent)

lemma block_unix_groups:
  assumes "g_key_file_has_key kf sid ''InUnixGroups'' \<longrightarrow>
           (\<exists>v. g_key_file_get_string_list x kf sid ''InUnixGroups'' = Inr v)"
    and "unix_groups p = []" and "n_unix_groups p = 0"
  shows "load_string_list x kf sid ''InUnixGroups''
           (\<lambda>v p. p \<lparr> unix_groups := v, n_unix_groups := length v \<rparr>) flag p
         = Inr (mark (g_key_file_has_key kf sid ''InUnixGroups'') flag
                 (p \<lparr> unix_groups := list_under x kf sid ''InUnixGroups'',
                      n_unix_groups := length (list_under x kf sid ''InUnixGroups'') \<rparr>))"
  using assms(2,3) unfolding load_string_list_ok[OF assms(1)]
  by (cases p) (simp add: mark_def list_under_absent)

lemma block_net_groups:
  assumes "g_key_file_has_key kf sid ''InNetGroups'' \<longrightarrow>
           (\<exists>v. g_key_file_get_string_list x kf sid ''InNetGroups'' = Inr v)"
    and "net_groups p = []" and "n_net_groups p = 0"
  shows "load_string_list x kf sid ''InNetGroups''
           (\<lambda>v p. p \<lparr> net_groups := v, n_net_groups := length v \<rparr>) flag p
         = Inr (mark (g_key_file_has_key kf sid ''InNetGroups'') flag
                 (p \<lparr> net_groups := list_under x kf sid ''InNetGroups'',
                      n_net_groups := length (list_under x kf sid ''InNetGroups'') \<rparr>))"
  using assms(2,3) unfolding load_string_list_ok[OF assms(1)]
  by (cases p) (simp add: mark_def list_under_absent)

lemma block_unix_names:
  assumes "g_key_file_has_key kf sid ''InUserNames'' \<longrightarrow>
           (\<exists>v. g_key_file_get_string_list x kf sid ''InUserNames'' = Inr v)"
    and "unix_names p = []" and "n_unix_names p = 0"
  shows "load_string_list x kf sid ''InUserNames''
           (\<lambda>v p. p \<lparr> unix_names := v, n_unix_names := length v \<rparr>) flag p
         = Inr (mark (g_key_file_has_key kf sid ''InUserNames'') flag
                 (p \<lparr> unix_names := list_under x kf sid ''InUserNames'',
                      n_unix_names := length (list_under x kf sid ''InUserNames'') \<rparr>))"
  using assms(2,3) unfolding load_string_list_ok[OF assms(1)]
  by (cases p) (simp add: mark_def list_under_absent)

lemma block_result:
  assumes "g_key_file_has_key kf sid ''Result'' \<longrightarrow>
     (\<exists>v. g_key_file_get_string x kf sid ''Result'' = Inr v
          \<and> policy_string_to_result (g_strstrip v) \<noteq> PK_RESPONSE_UNHANDLED)"
    and "response p = zero_response x"
  shows "load_result x kf sid p
         = Inr (mark (g_key_file_has_key kf sid ''Result'') PF_CONSTRAINT_RESULT
                 (p \<lparr> response := response_under x kf sid ''Result'' \<rparr>))"
  using assms(2) unfolding load_result_ok[OF assms(1)]
  by (cases p) (simp add: mark_def response_under_absent)

lemma block_result_inverse:
  assumes "g_key_file_has_key kf sid ''ResultInverse'' \<longrightarrow>
     (\<exists>v. g_key_file_get_string x kf sid ''ResultInverse'' = Inr v)
     \<and> response p \<noteq> PK_RESPONSE_UNHANDLED"
    and "response_inverse p = zero_response x"
  shows "load_result_inverse x kf sid p
         = Inr (mark (g_key_file_has_key kf sid ''ResultInverse'') PF_CONSTRAINT_RESULT_INVERSE
                 (p \<lparr> response_inverse := response_under x kf sid ''ResultInverse'' \<rparr>))"
  using assms(2) unfolding load_result_inverse_ok[OF assms(1)]
  by (cases p) (simp add: mark_def response_under_absent)

lemma block_active:
  assumes "g_key_file_has_key kf sid ''SubjectActive'' \<longrightarrow>
           (\<exists>b. g_key_file_get_boolean x kf sid ''SubjectActive'' = Inr b)"
    and "require_active p = False"
  shows "load_boolean x kf sid ''SubjectActive'' (\<lambda>b p. p \<lparr> require_active := b \<rparr>) flag p
         = Inr (mark (g_key_file_has_key kf sid ''SubjectActive'') flag
                 (p \<lparr> require_active := boolean_under x kf sid ''SubjectActive'' \<rparr>))"
  using assms(2) unfolding load_boolean_ok[OF assms(1)]
  by (cases p) (simp add: mark_def boolean_under_absent)

lemma block_local:
  assumes "g_key_file_has_key kf sid ''SubjectLocal'' \<longrightarrow>
           (\<exists>b. g_key_file_get_boolean x kf sid ''SubjectLocal'' = Inr b)"
    and "require_local p = False"
  shows "load_boolean x kf sid ''SubjectLocal'' (\<lambda>b p. p \<lparr> require_local := b \<rparr>) flag p
         = Inr (mark (g_key_file_has_key kf sid ''SubjectLocal'') flag
                 (p \<lparr> require_local := boolean_under x kf sid ''SubjectLocal'' \<rparr>))"
  using assms(2) unfolding load_boolean_ok[OF assms(1)]
  by (cases p) (simp add: mark_def boolean_under_absent)

lemma policy_load_ok:
  assumes wf: "well_formed_section x kf sid"
  shows "policy_load x kf sid = Inr (Some (expected_rule x kf sid))"
proof -
  let ?c = "g_key_file_has_key kf sid"
  have grp: "g_key_file_has_group kf sid" using wf by (simp add: well_formed_section_def)
  have hl: "?c ''Actions'' \<longrightarrow> (\<exists>v. g_key_file_get_string_list x kf sid ''Actions'' = Inr v)"
    "?c ''ActionContains'' \<longrightarrow> (\<exists>v. g_key_file_get_string_list x kf sid ''ActionContains'' = Inr v)"
    "?c ''InUnixGroups'' \<longrightarrow> (\<exists>v. g_key_file_get_string_list x kf sid ''InUnixGroups'' = Inr v)"
    "?c ''InNetGroups'' \<longrightarrow> (\<exists>v. g_key_file_get_string_list x kf sid ''InNetGroups'' = Inr v)"
    "?c ''InUserNames'' \<longrightarrow> (\<exists>v. g_key_file_get_string_list x kf sid ''InUserNames'' = Inr v)"
    using wf by (simp_all add: well_formed_section_def)
  have hr: "?c ''Result'' \<longrightarrow>
      (\<exists>v. g_key_file_get_string x kf sid ''Result'' = Inr v
           \<and> policy_string_to_result (g_strstrip v) \<noteq> PK_RESPONSE_UNHANDLED)"
    "?c ''ResultInverse'' \<longrightarrow>
      (\<exists>v. g_key_file_get_string x kf sid ''ResultInverse'' = Inr v
           \<and> policy_string_to_result (g_strstrip v) \<noteq> PK_RESPONSE_UNHANDLED)"
    using wf by (simp_all add: well_formed_section_def)
  have hi: "?c ''ResultInverse'' \<longrightarrow> ?c ''Result'' \<or> zero_response x \<noteq> PK_RESPONSE_UNHANDLED"
    using wf by (simp add: well_formed_section_def)
  have hb: "?c ''SubjectActive'' \<longrightarrow> (\<exists>b. g_key_file_get_boolean x kf sid ''SubjectActive'' = Inr b)"
    "?c ''SubjectLocal'' \<longrightarrow> (\<exists>b. g_key_file_get_boolean x kf sid ''SubjectLocal'' = Inr b)"
    using wf by (simp_all add: well_formed_section_def)
  have kw: "?c ''ResultInverse'' \<longrightarrow> response_under x kf sid ''Result'' \<noteq> PK_RESPONSE_UNHANDLED"
  proof (cases "?c ''Result''")
    case True
    then show ?thesis using hr(1) by (auto simp: response_under_def)
  next
    case False
    then show ?thesis using hi by (simp add: response_under_absent)
  qed
  have ri: "\<And>p. response p = response_under x kf sid ''Result'' \<Longrightarrow>
     ?c ''ResultInverse'' \<longrightarrow>
       (\<exists>v. g_key_file_get_string x kf sid ''ResultInverse'' = Inr v)
       \<and> response p \<noteq> PK_RESPONSE_UNHANDLED"
    using hr(2) kw by auto
  define p1 where "p1 = mark (?c ''Actions'') PF_CONSTRAINT_ACTIONS
      ((policy_new0 x sid) \<lparr> actions := list_under x kf sid ''Actions'',
                 n_actions := length (list_under x kf sid ''Actions'') \<rparr>)"
  define p2 where "p2 = mark (?c ''ActionContains'') PF_CONSTRAINT_ACTION_CONTAINS
      (p1 \<lparr> action_contains := list_under x kf sid ''ActionContains'',
            n_action_contains := length (list_under x kf sid ''ActionContains'') \<rparr>)"
  define p3 where "p3 = mark (?c ''InUnixGroups'') PF_CONSTRAINT_UNIX_GROUPS
      (p2 \<lparr> unix_groups := list_under x kf sid ''InUnixGroups'',
            n_unix_groups := length (list_under x kf sid ''InUnixGroups'') \<rparr>)"
  define p4 where "p4 = mark (?c ''InNetGroups'') PF_CONSTRAINT_NET_GROUPS
      (p3 \<lparr> net_groups := list_under x kf sid ''InNetGroups'',
            n_net_groups := length (list_under x kf sid ''InNetGroups'') \<rparr>)"
  define p5 where "p5 = mark (?c ''Result'') PF_CONSTRAINT_RESULT
      (p4 \<lparr> response := response_under x kf sid ''Result'' \<rparr>)"
  define p6 where "p6 = mark (?c ''ResultInverse'') PF_CONSTRAINT_RESULT_INVERSE
      (p5 \<lparr> response_inverse := response_under x kf sid ''ResultInverse'' \<rparr>)"
  define p7 where "p7 = mark (?c ''InUserNames'') PF_CONSTRAINT_UNIX_NAMES
      (p6 \<lparr> unix_names := list_under x kf sid ''InUserNames'',
            n_unix_names := length (list_under x kf sid ''InUserNames'') \<rparr>)"
  define p8 where "p8 = mark (?c ''SubjectActive'') PF_CONSTRAINT_SUBJECT_ACTIVE
      (p7 \<lparr> require_active := boolean_under x kf sid ''SubjectActive'' \<rparr>)"
  define p9 where "p9 = mark (?c ''SubjectLocal'') PF_CONSTRAINT_SUBJECT_LOCAL
      (p8 \<lparr> require_local := boolean_under x kf sid ''SubjectLocal'' \<rparr>)"
  note pdefs = p9_def p8_def p7_def p6_def p5_def p4_def p3_def p2_def p1_def
  have b1: "load_string_list x kf sid ''Actions''
         (\<lambda>v p. p \<lparr> actions := v, n_actions := length v \<rparr>) PF_CONSTRAINT_ACTIONS
         (policy_new0 x sid) = Inr p1"
    unfolding p1_def by (rule block_actions[OF hl(1)]) (simp_all add: policy_new0_def)
  have b2: "load_string_list x kf sid ''ActionContains''
         (\<lambda>v p. p \<lparr> action_contains := v, n_action_contains := length v \<rparr>)
         PF_CONSTRAINT_ACTION_CONTAINS p1 = Inr p2"
    unfolding p2_def by (rule block_action_contains[OF hl(2)]) (simp_all add: p1_def policy_new0_def)
  have b3: "load_string_list x kf sid ''InUnixGroups''
         (\<lambda>v p. p \<lparr> unix_groups := v, n_unix_groups := length v \<rparr>) PF_CONSTRAINT_UNIX_GROUPS p2
         = Inr p3"
    unfolding p3_def
    by (rule block_unix_groups[OF hl(3)]) (simp_all add: p2_def p1_def policy_new0_def)
  have b4: "load_string_list x kf sid ''InNetGroups''
         (\<lambda>v p. p \<lparr> net_groups := v, n_net_groups := length v \<rparr>) PF_CONSTRAINT_NET_GROUPS p3
         = Inr p4"
    unfolding p4_def
    by (rule block_net_groups[OF hl(4)]) (simp_all add: p3_def p2_def p1_def policy_new0_def)
  have b5: "load_result x kf sid p4 = Inr p5"
    unfolding p5_def
    by (rule block_result[OF hr(1)]) (simp add: p4_def p3_def p2_def p1_def policy_new0_def)
  have b6: "load_result_inverse x kf sid p5 = Inr p6"
    unfolding p6_def
    by (rule block_result_inverse[OF ri])
       (simp_all add: p5_def p4_def p3_def p2_def p1_def policy_new0_def)
  have b7: "load_string_list x kf sid ''InUserNames''
         (\<lambda>v p. p \<lparr> unix_names := v, n_unix_names := length v \<rparr>) PF_CONSTRAINT_UNIX_NAMES p6
         = Inr p7"
    unfolding p7_def
    by (rule block_unix_names[OF hl(5)])
       (simp_all add: p6_def p5_def p4_def p3_def p2_def p1_def policy_new0_def)
  have b8: "load_boolean x kf sid ''SubjectActive''
         (\<lambda>b p. p \<lparr> require_active := b \<rparr>) PF_CONSTRAINT_SUBJECT_ACTIVE p7 = Inr p8"
    unfolding p8_def
    by (rule block_active[OF hb(1)])
       (simp add: p7_def p6_def p5_def p4_def p3_def p2_def p1_def policy_new0_def)
  have b9: "load_boolean x kf sid ''SubjectLocal''
         (\<lambda>b p. p \<lparr> require_local := b \<rparr>) PF_CONSTRAINT_SUBJECT_LOCAL p8 = Inr p9"
    unfolding p9_def
    by (rule block_local[OF hb(2)])
       (simp add: p8_def p7_def p6_def p5_def p4_def p3_def p2_def p1_def policy_new0_def)
  have run: "run_blocks (policy_blocks x kf sid) (policy_new0 x sid) = Inr p9"
    unfolding policy_blocks_def
    by (simp add: b1 b2 b3 b4 b5 b6 b7 b8 b9)
  have cs: "constraints p9 = constraints (expected_rule x kf sid)"
  proof (rule set_eqI)
    fix y
    have l: "y \<in> constraints p9 \<longleftrightarrow>
        (?c ''SubjectLocal'' \<and> y = PF_CONSTRAINT_SUBJECT_LOCAL)
        \<or> (?c ''SubjectActive'' \<and> y = PF_CONSTRAINT_SUBJECT_ACTIVE)
        \<or> (?c ''InUserNames'' \<and> y = PF_CONSTRAINT_UNIX_NAMES)
        \<or> (?c ''ResultInverse'' \<and> y = PF_CONSTRAINT_RESULT_INVERSE)
        \<or> (?c ''Result'' \<and> y = PF_CONSTRAINT_RESULT)
        \<or> (?c ''InNetGroups'' \<and> y = PF_CONSTRAINT_NET_GROUPS)
        \<or> (?c ''InUnixGroups'' \<and> y = PF_CONSTRAINT_UNIX_GROUPS)
        \<or> (?c ''ActionContains'' \<and> y = PF_CONSTRAINT_ACTION_CONTAINS)
        \<or> (?c ''Actions'' \<and> y = PF_CONSTRAINT_ACTIONS)"
      by (simp add: pdefs policy_new0_def mem_if_single split del: if_split)
    have r: "y \<in> constraints (expected_rule x kf sid) \<longleftrightarrow>
        (?c ''Actions'' \<and> y = PF_CONSTRAINT_ACTIONS)
        \<or> (?c ''ActionContains'' \<and> y = PF_CONSTRAINT_ACTION_CONTAINS)
        \<or> (?c ''InUnixGroups'' \<and> y = PF_CONSTRAINT_UNIX_GROUPS)
        \<or> (?c ''InNetGroups'' \<and> y = PF_CONSTRAINT_NET_GROUPS)
        \<or> (?c ''Result'' \<and> y = PF_CONSTRAINT_RESULT)
        \<or> (?c ''ResultInverse'' \<and> y = PF_CONSTRAINT_RESULT_INVERSE)
        \<or> (?c ''InUserNames'' \<and> y = PF_CONSTRAINT_UNIX_NAMES)
        \<or> (?c ''SubjectActive'' \<and> y = PF_CONSTRAINT_SUBJECT_ACTIVE)
        \<or> (?c ''SubjectLocal'' \<and> y = PF_CONSTRAINT_SUBJECT_LOCAL)"
      unfolding expected_rule_def key_flags_def flags_cons
      by (simp add: mem_if_single split del: if_split)
    show "y \<in> constraints p9 \<longleftrightarrow> y \<in> constraints (expected_rule x kf sid)"
      unfolding l r by blast
  qed
  have eq: "p9 = expected_rule x kf sid"
    by (rule Policy.equality)
       (simp_all add: cs, simp_all add: pdefs policy_new0_def expected_rule_def)
  show ?thesis using grp run eq by (simp add: policy_load_def)
qed

lemma load_rules_loop_ok:
  "\<forall>s \<in> set sections. well_formed_section x kf (g_strstrip s) \<Longrightarrow>
   load_rules_loop x kf sections target
     = Inr (True, target @ map (\<lambda>s. expected_rule x kf (g_strstrip s)) sections)"
  by (induction sections arbitrary: target) (simp_all add: policy_load_ok)

lemma policy_file_load_rules_ok:
  assumes "g_key_file_get_string_list x kf POLICY_SECTION section = Inr ids"
    and "\<forall>s \<in> set (list_under x kf POLICY_SECTION section). well_formed_section x kf (g_strstrip s)"
  shows "policy_file_load_rules x kf section
     = Inr (True, map (\<lambda>s. expected_rule x kf (g_strstrip s)) (list_under x kf POLICY_SECTION section))"
proof -
  have l: "list_under x kf POLICY_SECTION section = ids" using assms(1) by (simp add: list_under_def)
  show ?thesis
    using assms(2) unfolding l
    by (simp add: policy_file_load_rules_def assms(1) load_rules_loop_ok)
qed

lemmas access_defs =
  list_under_def response_under_def boolean_under_def
  g_key_file_get_string_list_def g_key_file_get_string_def g_key_file_get_boolean_def
  g_key_file_get_value_def typed_def g_key_file_has_key_def g_key_file_has_group_def
  policy_string_to_result_def g_ascii_strdown_def g_ascii_tolower_def
  g_strstrip_def g_ascii_isspace_def POLICY_SECTION_def

lemma every_key_lists:
  "list_under glib_plain kf_every_key POLICY_SECTION ''Rules'' = [''Mount'', '' Halt'']"
  "list_under glib_plain kf_every_key POLICY_SECTION ''AdminRules'' = [''Admins'']"
  by (simp_all add: access_defs glib_plain_def kf_every_key_def)

lemma every_key_sections:
  "well_formed_section glib_plain kf_every_key ''Mount''"
  "well_formed_section glib_plain kf_every_key ''Halt''"
  "well_formed_section glib_plain kf_every_key ''Admins''"
  by (auto simp: well_formed_section_def access_defs glib_plain_def kf_every_key_def)

lemma every_key_well_formed: "well_formed glib_plain kf_every_key"
proof -
  have s: "g_strstrip ''Mount'' = ''Mount''" "g_strstrip '' Halt'' = ''Halt''"
    "g_strstrip ''Admins'' = ''Admins''"
    by (simp_all add: g_strstrip_def g_ascii_isspace_def)
  have k: "\<exists>ids. g_key_file_get_string_list glib_plain kf_every_key POLICY_SECTION ''Rules'' = Inr ids"
    "\<exists>ids. g_key_file_get_string_list glib_plain kf_every_key POLICY_SECTION ''AdminRules'' = Inr ids"
    by (simp_all add: access_defs glib_plain_def kf_every_key_def)
  show ?thesis
    unfolding well_formed_def every_key_lists using k every_key_sections by (simp add: s)
qed

lemma every_key_rule_mount:
  "expected_rule glib_plain kf_every_key ''Mount'' = hd (normal rules_every_key)"
  by (simp add: expected_rule_def key_flags_def access_defs glib_plain_def kf_every_key_def
      rules_every_key_def)

lemma every_key_rule_halt:
  "expected_rule glib_plain kf_every_key ''Halt'' = hd (tl (normal rules_every_key))"
  by (simp add: expected_rule_def key_flags_def access_defs glib_plain_def kf_every_key_def
      rules_every_key_def)

lemma every_key_rule_admins:
  "expected_rule glib_plain kf_every_key ''Admins'' = hd (admin rules_every_key)"
  by (simp add: expected_rule_def key_flags_def access_defs glib_plain_def kf_every_key_def
      rules_every_key_def)

lemma every_key_expected: "expected_rules glib_plain kf_every_key = rules_every_key"
proof -
  have s: "g_strstrip ''Mount'' = ''Mount''" "g_strstrip '' Halt'' = ''Halt''"
    "g_strstrip ''Admins'' = ''Admins''"
    by (simp_all add: g_strstrip_def g_ascii_isspace_def)
  show ?thesis
    unfolding expected_rules_def every_key_lists
    by (simp add: s every_key_rule_mount every_key_rule_halt every_key_rule_admins)
       (simp add: rules_every_key_def)
qed

text \<open>
  Claim C9. For every well-formed rule file, two parses of the same content, at any two
  paths of any two states of the file system, both return the rule set the file stands
  for: the normal and the admin list hold one rule for each section named, in the order
  named, and each rule has the section's name as id, the flag of every recognised key
  of the section in its mask, the lists, booleans and responses read under the keys that
  are present, and the zeros of \<^verbatim>\<open>g_new0\<close> in every field whose key is absent.
\<close>

theorem parse_of_well_formed_file:
  assumes "well_formed x kf" and "fs1 path1 = Some kf" and "fs2 path2 = Some kf"
  shows "policy_file_new_from_path x fs1 path1 = Inr (Some (expected_rules x kf))
         \<and> policy_file_new_from_path x fs2 path2 = Inr (Some (expected_rules x kf))"
proof -
  from assms(1) obtain ids1 ids2 where
    ids: "g_key_file_get_string_list x kf POLICY_SECTION ''Rules'' = Inr ids1"
      "g_key_file_get_string_list x kf POLICY_SECTION ''AdminRules'' = Inr ids2"
    and secs: "\<forall>s \<in> set (list_under x kf POLICY_SECTION ''Rules'').
                 well_formed_section x kf (g_strstrip s)"
      "\<forall>s \<in> set (list_under x kf POLICY_SECTION ''AdminRules'').
                 well_formed_section x kf (g_strstrip s)"
    unfolding well_formed_def by blast
  note n = policy_file_load_rules_ok[OF ids(1) secs(1)]
  note a = policy_file_load_rules_ok[OF ids(2) secs(2)]
  have "policy_file_new_from_path x fs path = Inr (Some (expected_rules x kf))"
    if "fs path = Some kf" for fs path
    using that by (simp add: policy_file_new_from_path_def n a expected_rules_def)
  then show ?thesis using assms(2,3) by blast
qed

theorem parse_of_well_formed_file_witness:
  "well_formed glib_plain kf_every_key
   \<and> [''/etc/a.keyrules'' \<mapsto> kf_every_key] ''/etc/a.keyrules'' = Some kf_every_key
   \<and> [''/usr/b.keyrules'' \<mapsto> kf_every_key] ''/usr/b.keyrules'' = Some kf_every_key
   \<and> policy_file_new_from_path glib_plain [''/etc/a.keyrules'' \<mapsto> kf_every_key] ''/etc/a.keyrules''
       = Inr (Some rules_every_key)
   \<and> policy_file_new_from_path glib_plain [''/usr/b.keyrules'' \<mapsto> kf_every_key] ''/usr/b.keyrules''
       = Inr (Some rules_every_key)"
proof -
  have a: "[''/etc/a.keyrules'' \<mapsto> kf_every_key] ''/etc/a.keyrules'' = Some kf_every_key"
    and b: "[''/usr/b.keyrules'' \<mapsto> kf_every_key] ''/usr/b.keyrules'' = Some kf_every_key"
    by simp_all
  have "policy_file_new_from_path glib_plain [''/etc/a.keyrules'' \<mapsto> kf_every_key]
            ''/etc/a.keyrules'' = Inr (Some (expected_rules glib_plain kf_every_key))
        \<and> policy_file_new_from_path glib_plain [''/usr/b.keyrules'' \<mapsto> kf_every_key]
            ''/usr/b.keyrules'' = Inr (Some (expected_rules glib_plain kf_every_key))"
    using every_key_well_formed a b by (rule parse_of_well_formed_file)
  then show ?thesis using every_key_well_formed a b unfolding every_key_expected by blast
qed

section \<open>Properties of the chain loader\<close>

subsection \<open>The chain in the store\<close>

lemma chain_from_seg:
  "list_seg st p as \<Longrightarrow> length as \<le> n \<Longrightarrow> chain_from n st p = map (rules_at st) as"
proof (induction as arbitrary: p n)
  case Nil
  then show ?case by simp
next
  case (Cons a as)
  then obtain m where n: "n = Suc m" by (cases n) auto
  from Cons.prems(1) obtain f where f: "p = Some a" "st a = Some f" "list_seg st (next_file f) as"
    by (auto split: option.splits)
  have "chain_from m st (next_file f) = map (rules_at st) as"
    using Cons.IH[OF f(3)] Cons.prems(2) n by simp
  then show ?case using f n by (simp add: rules_at_def)
qed

lemma distinct_bounded_length:
  "distinct as \<Longrightarrow> \<forall>a \<in> set as. a < (n::nat) \<Longrightarrow> length as \<le> n"
proof -
  assume d: "distinct as" and b: "\<forall>a \<in> set as. a < n"
  have "card (set as) \<le> card {..<n}" using b by (intro card_mono) auto
  then show ?thesis using d by (simp add: distinct_card)
qed

lemma chain_linked: "linked s last_file as \<Longrightarrow> chain s = map (rules_at (store s)) as"
  unfolding linked_def chain_def
  by (intro chain_from_seg) (auto intro: distinct_bounded_length)

lemma list_seg_extend:
  assumes "list_seg st p as" and "as \<noteq> []" and "distinct as" and "a \<notin> set as"
    and "st (last as) = Some lf"
    and "st1 a = Some \<lparr> rules = r, next_file = None \<rparr>"
    and "st1 (last as) = Some (lf \<lparr> next_file := Some a \<rparr>)"
    and "\<And>b. b \<noteq> a \<Longrightarrow> b \<noteq> last as \<Longrightarrow> st1 b = st b"
  shows "list_seg st1 p (as @ [a])"
  using assms(1-5,7,8)
proof (induction as arbitrary: p)
  case Nil
  then show ?case by simp
next
  case (Cons b bs)
  from Cons.prems(1) obtain f where f: "p = Some b" "st b = Some f" "list_seg st (next_file f) bs"
    by (auto split: option.splits)
  show ?case
  proof (cases "bs = []")
    case True
    then have "lf = f" "next_file f = None" using f Cons.prems(5) by auto
    then have "st1 b = Some (f \<lparr> next_file := Some a \<rparr>)" using Cons.prems(6) True by simp
    then show ?thesis using f(1) True assms(6) by simp
  next
    case False
    then have l: "last (b # bs) = last bs" by simp
    have nb: "b \<noteq> last bs" using Cons.prems(3) False by (metis distinct.simps(2) last_in_set)
    have ab: "b \<noteq> a" using Cons.prems(4) by auto
    have ih: "list_seg st1 (next_file f) (bs @ [a])"
    proof (rule Cons.IH[OF f(3) False])
      show "distinct bs" using Cons.prems(3) by simp
      show "a \<notin> set bs" using Cons.prems(4) by simp
      show "st (last bs) = Some lf" using Cons.prems(5) l by simp
      show "st1 (last bs) = Some (lf \<lparr> next_file := Some a \<rparr>)" using Cons.prems(6) l by simp
      show "\<And>c. c \<noteq> a \<Longrightarrow> c \<noteq> last bs \<Longrightarrow> st1 c = st c" using Cons.prems(7) l by simp
    qed
    have "st1 b = Some f" using Cons.prems(7)[OF ab] nb l f(2) by simp
    then show ?thesis using f(1) ih by simp
  qed
qed

lemma list_seg_last:
  "list_seg st p as \<Longrightarrow> as \<noteq> [] \<Longrightarrow> \<exists>lf. st (last as) = Some lf"
  by (induction as arbitrary: p) (auto split: option.splits)

lemma link_file_linked:
  assumes "linked s last_file as"
  shows "\<exists>s1. link_file s last_file r = Inr (s1, Some (next_addr s))
     \<and> linked s1 (Some (next_addr s)) (as @ [next_addr s])
     \<and> map (rules_at (store s1)) (as @ [next_addr s]) = map (rules_at (store s)) as @ [r]
     \<and> logged s1 = logged s \<and> changed_signals s1 = changed_signals s
     \<and> rules_dirs s1 = rules_dirs s"
proof (cases "as = []")
  case True
  then show ?thesis using assms
    by (simp add: linked_def link_file_def Let_def rules_at_def)
next
  case False
  let ?a = "next_addr s"
  have fresh: "?a \<notin> set as" using assms by (auto simp: linked_def)
  have lst: "last_file = Some (last as)" using assms False by (simp add: linked_def)
  have sg: "list_seg (store s) (policy s) as" using assms by (simp add: linked_def)
  from list_seg_last[OF sg False] obtain lf where lf: "store s (last as) = Some lf"
    by blast
  have ne: "last as \<noteq> ?a" using fresh False last_in_set by metis
  let ?st = "(store s) (?a \<mapsto> \<lparr> rules = r, next_file = None \<rparr>,
                      last as \<mapsto> lf \<lparr> next_file := Some ?a \<rparr>)"
  have dist: "distinct as" using assms by (simp add: linked_def)
  have seg: "list_seg ?st (policy s) (as @ [?a])"
  proof (rule list_seg_extend[OF sg False dist fresh lf])
    show "?st ?a = Some \<lparr> rules = r, next_file = None \<rparr>" using ne by simp
    show "?st (last as) = Some (lf \<lparr> next_file := Some ?a \<rparr>)" by simp
    show "\<And>b. b \<noteq> ?a \<Longrightarrow> b \<noteq> last as \<Longrightarrow> ?st b = store s b" by simp
  qed
  have eq: "link_file s last_file r =
     Inr (s \<lparr> store := ?st, next_addr := Suc ?a \<rparr>, Some ?a)"
    using lst lf ne by (simp add: link_file_def Let_def)
  have old: "map (rules_at ?st) as = map (rules_at (store s)) as"
    using fresh lf by (auto simp: rules_at_def)
  have new: "rules_at ?st ?a = r" using ne by (simp add: rules_at_def)
  have "linked (s \<lparr> store := ?st, next_addr := Suc ?a \<rparr>) (Some ?a) (as @ [?a])"
    using seg assms fresh by (auto simp: linked_def less_Suc_eq)
  then show ?thesis using eq old new by simp
qed

lemma load_files_append:
  "load_files x h (xs @ ys) st =
     (case load_files x h xs st of Inl f \<Rightarrow> Inl f | Inr st1 \<Rightarrow> load_files x h ys st1)"
proof (induction xs arbitrary: st)
  case Nil
  then show ?case by simp
next
  case (Cons a xs)
  obtain s l n where st: "st = (s, l, n)" by (cases st)
  show ?case using Cons.IH by (simp add: st Let_def split: sum.splits option.splits prod.splits)
qed

lemma load_files_linked:
  assumes "linked s last_file as"
    and "load_files x h files (s, last_file, n) = Inr (s1, last1, n1)"
  shows "\<exists>bs. linked s1 last1 (as @ bs)
     \<and> map (\<lambda>r. Inr (Some r)) (map (rules_at (store s1)) (as @ bs))
         = map (\<lambda>r. Inr (Some r)) (map (rules_at (store s)) as)
           @ map (policy_file_new_from_path x (key_file h)) files
     \<and> n1 = n + length files
     \<and> logged s1 = logged s \<and> changed_signals s1 = changed_signals s
     \<and> rules_dirs s1 = rules_dirs s"
  using assms
proof (induction files arbitrary: s last_file as n)
  case Nil
  then show ?case by (intro exI[of _ "[]"]) simp
next
  case (Cons filename files)
  from Cons.prems(2) obtain r where
    r: "policy_file_new_from_path x (key_file h) filename = Inr (Some r)"
    by (auto simp: Let_def split: sum.splits option.splits)
  from link_file_linked[OF Cons.prems(1), of r] obtain s2 where
    s2: "link_file s last_file r = Inr (s2, Some (next_addr s))"
      "linked s2 (Some (next_addr s)) (as @ [next_addr s])"
      "map (rules_at (store s2)) (as @ [next_addr s]) = map (rules_at (store s)) as @ [r]"
      "logged s2 = logged s" "changed_signals s2 = changed_signals s" "rules_dirs s2 = rules_dirs s"
    by blast
  have rest: "load_files x h files (s2, Some (next_addr s), Suc n) = Inr (s1, last1, n1)"
    using Cons.prems(2) r s2(1) by (simp add: Let_def)
  from Cons.IH[OF s2(2) rest] obtain bs where
    bs: "linked s1 last1 ((as @ [next_addr s]) @ bs)"
      "map (\<lambda>r. Inr (Some r)) (map (rules_at (store s1)) ((as @ [next_addr s]) @ bs))
         = map (\<lambda>r. Inr (Some r)) (map (rules_at (store s2)) (as @ [next_addr s]))
           @ map (policy_file_new_from_path x (key_file h)) files"
      "n1 = Suc n + length files"
      "logged s1 = logged s2" "changed_signals s1 = changed_signals s2"
      "rules_dirs s1 = rules_dirs s2"
    by blast
  show ?case
  proof (intro exI[of _ "next_addr s # bs"] conjI)
    show "linked s1 last1 (as @ next_addr s # bs)" using bs(1) by simp
    show "map (\<lambda>r. Inr (Some r)) (map (rules_at (store s1)) (as @ next_addr s # bs))
         = map (\<lambda>r. Inr (Some r)) (map (rules_at (store s)) as)
           @ map (policy_file_new_from_path x (key_file h)) (filename # files)"
      using bs(2) s2(3) r by simp
    show "n1 = n + length (filename # files)" using bs(3) by simp
    show "logged s1 = logged s" using bs(4) s2(4) by simp
    show "changed_signals s1 = changed_signals s" using bs(5) s2(5) by simp
    show "rules_dirs s1 = rules_dirs s" using bs(6) s2(6) by simp
  qed
qed

lemma read_names_set:
  "set (read_names d names files) =
     set files \<union> {p. \<exists>n. n \<in> set names \<and> g_str_has_suffix n ''.keyrules'' \<and> p = d @ ''/'' @ n}"
  by (induction names arbitrary: files) auto

lemma scan_dirs_frame:
  "scan_dirs h dirs s files = (s1, files1) \<Longrightarrow>
   policy s1 = policy s \<and> store s1 = store s \<and> next_addr s1 = next_addr s
   \<and> changed_signals s1 = changed_signals s \<and> rules_dirs s1 = rules_dirs s
   \<and> (\<exists>ls. logged s1 = logged s @ ls)
   \<and> set files1 = set files \<union> discovered h dirs"
proof (induction dirs arbitrary: s files)
  case Nil
  then show ?case by (simp add: discovered_def)
next
  case (Cons d dirs)
  show ?case
  proof (cases "dir_names h d")
    case None
    let ?s = "polkit_backend_authority_log
                (polkit_backend_authority_log s (LoadingRulesFromDirectory d))
                (ErrorOpeningRulesDirectory d)"
    have "scan_dirs h dirs ?s files = (s1, files1)" using Cons.prems None by (simp add: Let_def)
    from Cons.IH[OF this] have ih: "policy s1 = policy ?s \<and> store s1 = store ?s \<and> next_addr s1 = next_addr ?s
   \<and> changed_signals s1 = changed_signals ?s \<and> rules_dirs s1 = rules_dirs ?s
   \<and> (\<exists>ls. logged s1 = logged ?s @ ls)
   \<and> set files1 = set files \<union> discovered h dirs" .
    have "discovered h (d # dirs) = discovered h dirs" using None by (auto simp: discovered_def)
    then show ?thesis using ih by (auto simp: polkit_backend_authority_log_def)
  next
    case (Some names)
    let ?s = "polkit_backend_authority_log s (LoadingRulesFromDirectory d)"
    have "scan_dirs h dirs ?s (read_names d names files) = (s1, files1)"
      using Cons.prems Some by (simp add: Let_def)
    from Cons.IH[OF this] have ih: "policy s1 = policy ?s \<and> store s1 = store ?s \<and> next_addr s1 = next_addr ?s
   \<and> changed_signals s1 = changed_signals ?s \<and> rules_dirs s1 = rules_dirs ?s
   \<and> (\<exists>ls. logged s1 = logged ?s @ ls)
   \<and> set files1 = set (read_names d names files) \<union> discovered h dirs" .
    have "discovered h (d # dirs) =
       {p. \<exists>n. n \<in> set names \<and> g_str_has_suffix n ''.keyrules'' \<and> p = d @ ''/'' @ n}
       \<union> discovered h dirs"
      using Some by (auto simp: discovered_def)
    then show ?thesis using ih by (auto simp: polkit_backend_authority_log_def read_names_set)
  qed
qed

subsection \<open>The comparator and the sort\<close>

lemma g_strcmp0_less: "g_strcmp0 a b < 0 \<longleftrightarrow> a < b"
  by (induction a b rule: g_strcmp0.induct) (auto simp: less_char_def)

lemma g_strcmp0_eq: "g_strcmp0 a b = 0 \<longleftrightarrow> a = b"
  by (induction a b rule: g_strcmp0.induct) auto

lemma g_strcmp0_greater: "g_strcmp0 a b > 0 \<longleftrightarrow> b < a"
proof -
  have "g_strcmp0 a b > 0 \<longleftrightarrow> \<not> g_strcmp0 a b < 0 \<and> g_strcmp0 a b \<noteq> 0" by auto
  also have "\<dots> \<longleftrightarrow> b < a" unfolding g_strcmp0_less g_strcmp0_eq by auto
  finally show ?thesis .
qed

lemma file_before_less:
  "file_before a b \<longleftrightarrow> (basename a < basename b \<or> basename a = basename b \<and> a < b)"
  by (simp add: file_before_def g_strcmp0_less)

lemma file_before_trans: "file_before a b \<Longrightarrow> file_before b c \<Longrightarrow> file_before a c"
  by (auto simp: file_before_less)

lemma rules_file_name_cmp_sign:
  assumes "rules_file_name_cmp a b = Inr c"
  shows "c \<noteq> 0" and "c < 0 \<longleftrightarrow> file_before a b" and "0 < c \<longleftrightarrow> file_before b a"
proof -
  from assms obtain a_base b_base where
    ab: "strrchr_slash a = Some a_base" "strrchr_slash b = Some b_base"
    by (auto simp: rules_file_name_cmp_def split: option.splits)
  have bn: "basename a = a_base" "basename b = b_base" using ab by (simp_all add: basename_def)
  have c: "c = (if g_strcmp0 a_base b_base = 0 then g_strcmp0 a b else g_strcmp0 a_base b_base)"
    and nz: "g_strcmp0 a_base b_base = 0 \<Longrightarrow> g_strcmp0 a b \<noteq> 0"
    using assms ab by (auto simp: rules_file_name_cmp_def Let_def split: if_splits)
  show "c \<noteq> 0" using c nz by auto
  show "c < 0 \<longleftrightarrow> file_before a b"
    using c bn by (auto simp: file_before_less g_strcmp0_eq g_strcmp0_less)
  show "0 < c \<longleftrightarrow> file_before b a"
    using c bn by (auto simp: file_before_less g_strcmp0_eq g_strcmp0_greater g_strcmp0_less)
qed

lemma insert_sorted_sorted:
  assumes "sorted_wrt file_before ys"
    and "insert_sorted rules_file_name_cmp x ys = Inr zs"
  shows "sorted_wrt file_before zs \<and> set zs = insert x (set ys)"
  using assms
proof (induction ys arbitrary: zs)
  case Nil
  then show ?case by auto
next
  case (Cons y ys)
  from Cons.prems(2) obtain c where c: "rules_file_name_cmp x y = Inr c"
    by (auto split: sum.splits)
  note sg = rules_file_name_cmp_sign[OF c]
  show ?case
  proof (cases "c \<le> 0")
    case True
    then have xy: "file_before x y" using sg by auto
    have zs: "zs = x # y # ys" using Cons.prems(2) c True by simp
    have "\<forall>z \<in> set ys. file_before x z" using Cons.prems(1) xy file_before_trans by auto
    then show ?thesis using zs xy Cons.prems(1) by auto
  next
    case False
    then have yx: "file_before y x" using sg by auto
    from Cons.prems(2) c False obtain zs1 where
      zs1: "insert_sorted rules_file_name_cmp x ys = Inr zs1" "zs = y # zs1"
      by (auto split: sum.splits)
    have "sorted_wrt file_before ys" using Cons.prems(1) by simp
    from Cons.IH[OF this zs1(1)] have ih: "sorted_wrt file_before zs1" "set zs1 = insert x (set ys)"
      by auto
    show ?thesis using ih zs1(2) yx Cons.prems(1) by auto
  qed
qed

lemma g_list_sort_sorted:
  "g_list_sort xs rules_file_name_cmp = Inr zs \<Longrightarrow>
   sorted_wrt file_before zs \<and> set zs = set xs"
proof (induction xs arbitrary: zs)
  case Nil
  then show ?case by simp
next
  case (Cons x xs)
  from Cons.prems obtain ys where ys: "g_list_sort xs rules_file_name_cmp = Inr ys"
    "insert_sorted rules_file_name_cmp x ys = Inr zs"
    by (auto split: sum.splits)
  from Cons.IH[OF ys(1)] insert_sorted_sorted[OF _ ys(2)] show ?case by auto
qed

lemma sorted_files_frame:
  assumes "sorted_files h s = Inr (s1, files)"
  shows "policy s1 = policy s \<and> store s1 = store s \<and> next_addr s1 = next_addr s
   \<and> changed_signals s1 = changed_signals s \<and> rules_dirs s1 = rules_dirs s
   \<and> (\<exists>ls. logged s1 = logged s @ ls)
   \<and> set files = discovered h (configured_dirs s) \<and> sorted_wrt file_before files"
proof -
  obtain s0 files0 where sc: "scan_dirs h (configured_dirs s) s [] = (s0, files0)"
    by (cases "scan_dirs h (configured_dirs s) s []")
  have srt: "g_list_sort files0 rules_file_name_cmp = Inr files" and s1: "s1 = s0"
    using assms sc by (auto simp: sorted_files_def configured_dirs_def split: sum.splits)
  from scan_dirs_frame[OF sc] g_list_sort_sorted[OF srt] s1 show ?thesis by auto
qed

subsection \<open>A reload as a whole\<close>

lemma chain_frame:
  "policy s1 = policy s \<Longrightarrow> store s1 = store s \<Longrightarrow> next_addr s1 = next_addr s \<Longrightarrow>
   chain s1 = chain s"
  by (simp add: chain_def)

lemma clear_policy_frame:
  "policy (clear_policy s) = None" "logged (clear_policy s) = logged s"
  "changed_signals (clear_policy s) = changed_signals s"
  "configured_dirs (clear_policy s) = configured_dirs s"
  by (simp_all add: clear_policy_def configured_dirs_def)

lemma linked_empty: "policy s = None \<Longrightarrow> linked s None []"
  by (simp add: linked_def)

lemma inj_some_rules: "inj (\<lambda>r :: PolicyRules. (Inr (Some r) :: fault + PolicyRules option))"
  by (simp add: inj_def)

lemma load_pass_chain:
  assumes "sorted_files h (clear_policy s) = Inr (s1, files)"
    and "load_files x h fs (s1, None, 0) = Inr (s2, last_file, n)"
  shows "map (\<lambda>r. Inr (Some r)) (chain s2) = map (policy_file_new_from_path x (key_file h)) fs"
    and "logged s2 = logged s1" and "changed_signals s2 = changed_signals s"
    and "n = length fs"
proof -
  note fr = sorted_files_frame[OF assms(1)]
  have "linked s1 None []" using fr by (simp add: linked_empty clear_policy_frame)
  from load_files_linked[OF this assms(2)] obtain bs where
    bs: "linked s2 last_file bs"
      "map (\<lambda>r. Inr (Some r)) (map (rules_at (store s2)) bs)
         = map (policy_file_new_from_path x (key_file h)) fs"
      "n = length fs" "logged s2 = logged s1" "changed_signals s2 = changed_signals s1"
    by auto
  show "map (\<lambda>r. Inr (Some r)) (chain s2) = map (policy_file_new_from_path x (key_file h)) fs"
    using bs(2) chain_linked[OF bs(1)] by simp
  show "logged s2 = logged s1" by (rule bs(4))
  show "changed_signals s2 = changed_signals s" using bs(5) fr by (simp add: clear_policy_frame)
  show "n = length fs" by (rule bs(3))
qed

lemma reload_scripts_cases:
  assumes "reload_scripts x h s = Inr s'"
  obtains s1 files s2 last_file n where
    "sorted_files h (clear_policy s) = Inr (s1, files)"
    "load_files x h files (s1, None, 0) = Inr (s2, last_file, n)"
    "s' = (polkit_backend_authority_log s2 (FinishedLoading n))
            \<lparr> changed_signals := Suc (changed_signals s2) \<rparr>"
  using assms
  by (auto simp: reload_scripts_def load_scripts_def polkit_backend_authority_log_def
      split: sum.splits prod.splits)

lemma reload_scripts_chain:
  assumes "reload_scripts x h s = Inr s'"
  shows "\<exists>s1 files. sorted_files h (clear_policy s) = Inr (s1, files)
     \<and> map (\<lambda>r. Inr (Some r)) (chain s') = map (policy_file_new_from_path x (key_file h)) files
     \<and> set files = discovered h (configured_dirs s) \<and> sorted_wrt file_before files
     \<and> changed_signals s' = Suc (changed_signals s)
     \<and> length (logged s) < length (logged s')"
proof -
  from assms obtain s1 files s2 last_file n where
    r: "sorted_files h (clear_policy s) = Inr (s1, files)"
    "load_files x h files (s1, None, 0) = Inr (s2, last_file, n)"
    "s' = (polkit_backend_authority_log s2 (FinishedLoading n))
            \<lparr> changed_signals := Suc (changed_signals s2) \<rparr>"
    by (rule reload_scripts_cases)
  note fr = sorted_files_frame[OF r(1)]
  note lp = load_pass_chain[OF r(1,2)]
  have c: "chain s' = chain s2"
    using r(3) by (simp add: chain_def polkit_backend_authority_log_def)
  have l: "length (logged s) < length (logged s')"
    using r(3) lp(2) fr by (auto simp: polkit_backend_authority_log_def clear_policy_frame)
  show ?thesis using r(1) lp(1,3) c l fr r(3)
    by (auto simp: clear_policy_frame polkit_backend_authority_log_def)
qed

subsection \<open>The example hosts, evaluated\<close>

lemmas loader_defs =
  reload_scripts_def reload_state_at_def load_scripts_def sorted_files_def clear_policy_def
  link_file_def polkit_backend_authority_log_def rules_file_name_cmp_def g_str_has_suffix_def
  chain_def

lemma parse_yes:
  "policy_file_new_from_path glib_plain (key_file host_same_name) ''/usr/a.keyrules''
     = Inr (Some rules_yes)"
  by (simp add: parser_defs glib_plain_def host_same_name_def kf_yes_def rules_yes_def)

lemma parse_no:
  "policy_file_new_from_path glib_plain (key_file host_same_name) ''/etc/a.keyrules''
     = Inr (Some rules_no)"
  by (simp add: parser_defs glib_plain_def host_same_name_def kf_no_def rules_no_def)

lemmas parse_same_name =
  parse_yes[unfolded host_same_name_def, simplified]
  parse_no[unfolded host_same_name_def, simplified]

lemma reload_same_name_chain:
  "map_sum id chain (reload_scripts glib_plain host_same_name authority_usr_first)
     = Inr [rules_no, rules_yes]"
  by (simp add: loader_defs host_same_name_def authority_usr_first_def Let_def parse_same_name)

lemma reload_same_name_returns:
  "\<exists>s'. reload_scripts glib_plain host_same_name authority_usr_first = Inr s'"
  by (simp add: loader_defs host_same_name_def authority_usr_first_def Let_def parse_same_name)

lemma old_chain_before: "chain authority_old_chain = [rules_yes]"
  by (simp add: loader_defs authority_old_chain_def)

lemma old_chain_cleared:
  "map_sum id chain (reload_state_at 0 glib_plain host_same_name authority_old_chain) = Inr []"
  by (simp add: loader_defs host_same_name_def authority_old_chain_def Let_def parse_same_name)

lemma old_chain_one_linked:
  "map_sum id chain (reload_state_at (Suc 0) glib_plain host_same_name authority_old_chain)
     = Inr [rules_no]"
  by (simp add: loader_defs host_same_name_def authority_old_chain_def Let_def parse_same_name)

lemma old_chain_reloaded:
  "map_sum id chain (reload_scripts glib_plain host_same_name authority_old_chain)
     = Inr [rules_no, rules_yes]"
  by (simp add: loader_defs host_same_name_def authority_old_chain_def Let_def parse_same_name)

subsection \<open>Reload and the chain pointer\<close>

text \<open>
  Claim C1, as the code has it. The claim says that a reload builds the new chain aside
  and swaps it in after the pass, so that the authority's pointer never reaches an empty
  or partly built chain during the pass. The code clears the pointer first and builds
  the chain through it: for every reload that returns, the authority as it stands when
  the loop has run \<open>k\<close> times reaches exactly the first \<open>k\<close> rule sets of the final
  chain (none at \<open>k = 0\<close>), the \<^verbatim>\<open>changed\<close> signal has not been emitted at any of these
  states, and it is emitted once when the pass is over.
\<close>

theorem chain_built_in_place:
  assumes "reload_scripts x h s = Inr s'"
  shows "\<exists>sk. reload_state_at k x h s = Inr sk \<and> chain sk = take k (chain s')
              \<and> changed_signals sk = changed_signals s
              \<and> changed_signals s' = Suc (changed_signals s)"
proof -
  from assms obtain s1 files s2 last_file n where
    r: "sorted_files h (clear_policy s) = Inr (s1, files)"
    "load_files x h files (s1, None, 0) = Inr (s2, last_file, n)"
    "s' = (polkit_backend_authority_log s2 (FinishedLoading n))
            \<lparr> changed_signals := Suc (changed_signals s2) \<rparr>"
    by (rule reload_scripts_cases)
  note lp = load_pass_chain[OF r(1,2)]
  have c: "chain s' = chain s2"
    using r(3) by (simp add: chain_def polkit_backend_authority_log_def)
  have "load_files x h (take k files @ drop k files) (s1, None, 0) = Inr (s2, last_file, n)"
    using r(2) by simp
  then obtain sk lk nk where k: "load_files x h (take k files) (s1, None, 0) = Inr (sk, lk, nk)"
    unfolding load_files_append by (auto split: sum.splits)
  note lk = load_pass_chain[OF r(1) k]
  have "map (\<lambda>r. Inr (Some r) :: fault + PolicyRules option) (chain sk)
          = take k (map (policy_file_new_from_path x (key_file h)) files)"
    using lk(1) by (simp only: take_map)
  also have "\<dots> = take k (map (\<lambda>r. Inr (Some r)) (chain s'))"
    using lp(1) c by simp
  also have "\<dots> = map (\<lambda>r. Inr (Some r)) (take k (chain s'))"
    by (simp only: take_map)
  finally have "map (\<lambda>r. Inr (Some r) :: fault + PolicyRules option) (chain sk)
             = map (\<lambda>r. Inr (Some r)) (take k (chain s'))" .
  then have "chain sk = take k (chain s')"
    using inj_some_rules by (simp only: inj_map_eq_map)
  moreover have "reload_state_at k x h s = Inr sk"
    using r(1) k by (simp add: reload_state_at_def)
  moreover have "changed_signals s' = Suc (changed_signals s)" using r(3) lp(3) by simp
  ultimately show ?thesis using lk(3) by blast
qed

theorem chain_built_in_place_witness:
  "\<exists>s' sk. reload_scripts glib_plain host_same_name authority_usr_first = Inr s'
     \<and> reload_state_at (Suc 0) glib_plain host_same_name authority_usr_first = Inr sk
     \<and> chain s' = [rules_no, rules_yes]
     \<and> chain sk = take (Suc 0) (chain s')
     \<and> changed_signals sk = changed_signals authority_usr_first
     \<and> changed_signals s' = Suc (changed_signals authority_usr_first)"
proof -
  from reload_same_name_returns obtain s' where
    s': "reload_scripts glib_plain host_same_name authority_usr_first = Inr s'" by blast
  have c: "chain s' = [rules_no, rules_yes]"
    using reload_same_name_chain s' by simp
  from chain_built_in_place[OF s', of "Suc 0"] s' c show ?thesis by blast
qed

text \<open>
  Claim C1 as stated fails. An authority whose chain holds one rule set reloads from two
  files: before the loop runs its pointer reaches the empty chain, after the first
  iteration it reaches the first new rule set alone, and only after the pass the whole
  new chain.
\<close>

theorem reload_shows_partial_chain:
  "chain authority_old_chain = [rules_yes]
   \<and> map_sum id chain (reload_state_at 0 glib_plain host_same_name authority_old_chain) = Inr []
   \<and> map_sum id chain (reload_state_at (Suc 0) glib_plain host_same_name authority_old_chain)
       = Inr [rules_no]
   \<and> map_sum id chain (reload_scripts glib_plain host_same_name authority_old_chain)
       = Inr [rules_no, rules_yes]"
  using old_chain_before old_chain_cleared old_chain_one_linked old_chain_reloaded
  by (intro conjI)

subsection \<open>A file that does not parse\<close>

lemma failing_file_stops_reload:
  assumes "f \<in> discovered h (configured_dirs s)"
    and "policy_file_new_from_path x (key_file h) f = Inr None"
  shows "\<exists>e. reload_scripts x h s = Inl e"
proof (cases "reload_scripts x h s")
  case (Inl e)
  then show ?thesis by blast
next
  case (Inr s')
  from reload_scripts_chain[OF Inr] obtain files where
    "map (\<lambda>r. Inr (Some r)) (chain s') = map (policy_file_new_from_path x (key_file h)) files"
    "set files = discovered h (configured_dirs s)" by blast
  then have "Inr None \<in> set (map (\<lambda>r. Inr (Some r) :: fault + PolicyRules option) (chain s'))"
    using assms by force
  then show ?thesis by auto
qed

text \<open>
  Claim C5 (the code departs from it). The claim: a file that fails to parse is logged and
  skipped, and the pass goes on with the remaining files. The code on a directory with
  \<^verbatim>\<open>bad.keyrules\<close> (no \<^verbatim>\<open>[Policy]\<close> section) and \<^verbatim>\<open>good.keyrules\<close>: the parser returns
  \<^verbatim>\<open>NULL\<close> for the first, and the log call of \<^verbatim>\<open>load_scripts\<close> reads \<^verbatim>\<open>err->message\<close>
  of an error that nothing has set; the pass ends there and the second file is never
  linked.
\<close>

theorem failing_file_faults:
  "policy_file_new_from_path glib_plain (key_file host_one_bad) ''/etc/bad.keyrules'' = Inr None
   \<and> policy_file_new_from_path glib_plain (key_file host_one_bad) ''/etc/good.keyrules''
       = Inr (Some rules_yes)
   \<and> reload_scripts glib_plain host_one_bad authority_etc = Inl NullDereference"
proof -
  have a: "policy_file_new_from_path glib_plain (key_file host_one_bad) ''/etc/bad.keyrules''
           = Inr None"
    by (simp add: parser_defs glib_plain_def host_one_bad_def kf_no_policy_def)
  have b: "policy_file_new_from_path glib_plain (key_file host_one_bad) ''/etc/good.keyrules''
       = Inr (Some rules_yes)"
    by (simp add: parser_defs glib_plain_def host_one_bad_def kf_yes_def rules_yes_def)
  have c: "reload_scripts glib_plain host_one_bad authority_etc = Inl NullDereference"
    by (simp add: loader_defs host_one_bad_def authority_etc_def Let_def
        a[unfolded host_one_bad_def, simplified] b[unfolded host_one_bad_def, simplified])
  show ?thesis using a b c by simp
qed

subsection \<open>The order of the chain\<close>

text \<open>
  Claim C7, as the code has it. The claim says that between two files of the same name
  the one from the directory listed earlier in the configuration comes first. The
  comparator never sees the configuration: for every reload that returns, the chain holds
  the rule sets of the discovered paths ordered by \<open>file_before\<close>, that is by the name
  behind the last slash, and between two paths of the same name by the full path, both as
  \<^verbatim>\<open>strcmp\<close> orders bytes.
\<close>

theorem chain_sorted_by_name_then_path:
  assumes "reload_scripts x h s = Inr s'"
  shows "\<exists>files. map (\<lambda>r. Inr (Some r)) (chain s')
                     = map (policy_file_new_from_path x (key_file h)) files
     \<and> set files = discovered h (configured_dirs s) \<and> sorted_wrt file_before files"
  using reload_scripts_chain[OF assms] by blast

theorem chain_sorted_by_name_then_path_witness:
  "\<exists>s'. reload_scripts glib_plain host_same_name authority_usr_first = Inr s'
     \<and> (\<exists>files. map (\<lambda>r. Inr (Some r)) (chain s')
                     = map (policy_file_new_from_path glib_plain (key_file host_same_name)) files
          \<and> set files = discovered host_same_name (configured_dirs authority_usr_first)
          \<and> sorted_wrt file_before files)"
proof -
  from reload_same_name_returns obtain s' where
    s': "reload_scripts glib_plain host_same_name authority_usr_first = Inr s'" by blast
  from chain_sorted_by_name_then_path[OF s'] s' show ?thesis by blast
qed

text \<open>
  Claim C7 as stated fails. With \<^verbatim>\<open>/usr\<close> configured before \<^verbatim>\<open>/etc\<close> and a file
  \<^verbatim>\<open>a.keyrules\<close> in both, the rule set of \<^verbatim>\<open>/etc/a.keyrules\<close> comes first in the
  chain: the directory listed earlier does not win.
\<close>

theorem usr_listed_first_etc_wins:
  "rules_dirs authority_usr_first = Some [''/usr'', ''/etc'']
   \<and> policy_file_new_from_path glib_plain (key_file host_same_name) ''/usr/a.keyrules''
       = Inr (Some rules_yes)
   \<and> policy_file_new_from_path glib_plain (key_file host_same_name) ''/etc/a.keyrules''
       = Inr (Some rules_no)
   \<and> map_sum id chain (reload_scripts glib_plain host_same_name authority_usr_first)
       = Inr [rules_no, rules_yes]"
proof -
  have "rules_dirs authority_usr_first = Some [''/usr'', ''/etc'']"
    by (simp add: authority_usr_first_def)
  then show ?thesis using parse_yes parse_no reload_same_name_chain by (intro conjI)
qed

section \<open>Properties of the directory watcher\<close>

lemma has_suffix_iff: "g_str_has_suffix name p \<longleftrightarrow> (\<exists>stem. name = stem @ p)"
proof
  assume "g_str_has_suffix name p"
  then have "name = take (length name - length p) name @ p"
    by (simp add: g_str_has_suffix_def) (metis append_take_drop_id)
  then show "\<exists>stem. name = stem @ p" by blast
next
  assume "\<exists>stem. name = stem @ p"
  then show "g_str_has_suffix name p" by (auto simp: g_str_has_suffix_def)
qed

lemma has_prefix_char: "g_str_has_prefix name [c] \<longleftrightarrow> (\<exists>cs. name = c # cs)"
  by (cases name) (auto simp: g_str_has_prefix_def)

lemma watched_condition:
  "(\<not> g_str_has_prefix name ''.'' \<and> \<not> g_str_has_prefix name ''#''
      \<and> g_str_has_suffix name ''.keyrules''
      \<and> (ev = G_FILE_MONITOR_EVENT_CREATED \<or> ev = G_FILE_MONITOR_EVENT_DELETED
          \<or> ev = G_FILE_MONITOR_EVENT_CHANGES_DONE_HINT))
   = rule_file_event (Some name) ev"
  unfolding rule_file_event_def has_suffix_iff has_prefix_char
  by (cases name) auto

lemma on_dir_monitor_changed_eq:
  "on_dir_monitor_changed x h s file ev =
     (if rule_file_event file ev
      then reload_scripts x h (polkit_backend_authority_log s ReloadingRules)
      else Inr s)"
proof (cases "file")
  case None
  then show ?thesis by (simp add: on_dir_monitor_changed_def rule_file_event_def)
next
  case (Some name)
  show ?thesis
    unfolding Some on_dir_monitor_changed_def option.case watched_condition ..
qed

lemma reload_scripts_changes:
  assumes "reload_scripts x h (polkit_backend_authority_log s l) = Inr s'"
  shows "s' \<noteq> s" and "changed_signals s' = Suc (changed_signals s)"
proof -
  from reload_scripts_chain[OF assms]
  have "length (logged (polkit_backend_authority_log s l)) < length (logged s')"
    and c: "changed_signals s' = Suc (changed_signals (polkit_backend_authority_log s l))"
    by blast+
  then show "s' \<noteq> s" by (auto simp: polkit_backend_authority_log_def)
  show "changed_signals s' = Suc (changed_signals s)"
    using c by (simp add: polkit_backend_authority_log_def)
qed

lemma event_watched:
  "rule_file_event (Some ''a.keyrules'') G_FILE_MONITOR_EVENT_CHANGES_DONE_HINT"
  unfolding watched_condition[symmetric]
  by (simp add: g_str_has_suffix_def g_str_has_prefix_def)

lemma events_ignored:
  "\<not> rule_file_event (Some ''.a.keyrules'') G_FILE_MONITOR_EVENT_CREATED"
  "\<not> rule_file_event (Some ''a.keyrules'') G_FILE_MONITOR_EVENT_CHANGED"
  "\<not> rule_file_event (Some ''a.rules'') G_FILE_MONITOR_EVENT_CREATED"
  unfolding watched_condition[symmetric]
  by (simp_all add: g_str_has_suffix_def g_str_has_prefix_def)

lemma reload_after_event_chain:
  "map_sum id chain
     (reload_scripts glib_plain host_same_name
        (polkit_backend_authority_log authority_usr_first ReloadingRules))
     = Inr [rules_no, rules_yes]"
  by (simp add: loader_defs host_same_name_def authority_usr_first_def Let_def parse_same_name)

lemma reload_after_event_signal:
  "map_sum id changed_signals
     (reload_scripts glib_plain host_same_name
        (polkit_backend_authority_log authority_usr_first ReloadingRules))
     = Inr (Suc 0)"
  by (simp add: loader_defs host_same_name_def authority_usr_first_def Let_def parse_same_name)

text \<open>
  Claim C8. A directory-monitor event makes the watcher log \<^verbatim>\<open>Reloading rules\<close> and run
  \<^verbatim>\<open>reload_scripts\<close> on the authority exactly when it is a rule-file event: it carries a
  file whose name does not begin with \<^verbatim>\<open>.\<close> or \<^verbatim>\<open>#\<close> and ends with \<^verbatim>\<open>.keyrules\<close>, and
  its type is created, deleted or changes-done-hint. Every other event returns the
  authority as it was, and a rule-file event never does. When the watcher returns, the
  \<^verbatim>\<open>changed\<close> signal has been emitted once after a rule-file event and not at all after
  any other.
\<close>

theorem watcher_reloads_on_rule_file_events:
  "on_dir_monitor_changed x h s file ev =
     (if rule_file_event file ev
      then reload_scripts x h (polkit_backend_authority_log s ReloadingRules)
      else Inr s)
   \<and> (rule_file_event file ev \<longleftrightarrow> on_dir_monitor_changed x h s file ev \<noteq> Inr s)
   \<and> (\<forall>s'. on_dir_monitor_changed x h s file ev = Inr s' \<longrightarrow>
         changed_signals s' =
           (if rule_file_event file ev then Suc (changed_signals s) else changed_signals s))"
  using reload_scripts_changes[of x h s ReloadingRules]
  by (auto simp: on_dir_monitor_changed_eq)

theorem watcher_reloads_on_rule_file_events_witness:
  "rule_file_event (Some ''a.keyrules'') G_FILE_MONITOR_EVENT_CHANGES_DONE_HINT
   \<and> map_sum id chain
       (on_dir_monitor_changed glib_plain host_same_name authority_usr_first (Some ''a.keyrules'')
          G_FILE_MONITOR_EVENT_CHANGES_DONE_HINT) = Inr [rules_no, rules_yes]
   \<and> map_sum id changed_signals
       (on_dir_monitor_changed glib_plain host_same_name authority_usr_first (Some ''a.keyrules'')
          G_FILE_MONITOR_EVENT_CHANGES_DONE_HINT) = Inr (Suc 0)
   \<and> \<not> rule_file_event (Some ''.a.keyrules'') G_FILE_MONITOR_EVENT_CREATED
   \<and> on_dir_monitor_changed glib_plain host_same_name authority_usr_first (Some ''.a.keyrules'')
          G_FILE_MONITOR_EVENT_CREATED = Inr authority_usr_first
   \<and> \<not> rule_file_event (Some ''a.keyrules'') G_FILE_MONITOR_EVENT_CHANGED
   \<and> on_dir_monitor_changed glib_plain host_same_name authority_usr_first (Some ''a.keyrules'')
          G_FILE_MONITOR_EVENT_CHANGED = Inr authority_usr_first
   \<and> \<not> rule_file_event (Some ''a.rules'') G_FILE_MONITOR_EVENT_CREATED
   \<and> on_dir_monitor_changed glib_plain host_same_name authority_usr_first (Some ''a.rules'')
          G_FILE_MONITOR_EVENT_CREATED = Inr authority_usr_first"
proof -
  note w = watcher_reloads_on_rule_file_events[THEN conjunct1]
  have e1: "on_dir_monitor_changed glib_plain host_same_name authority_usr_first
          (Some ''a.keyrules'') G_FILE_MONITOR_EVENT_CHANGES_DONE_HINT
        = reload_scripts glib_plain host_same_name
            (polkit_backend_authority_log authority_usr_first ReloadingRules)"
    using w[of glib_plain host_same_name authority_usr_first "Some ''a.keyrules''"
        G_FILE_MONITOR_EVENT_CHANGES_DONE_HINT] event_watched
    by (simp only: if_True)
  have e2: "on_dir_monitor_changed glib_plain host_same_name authority_usr_first
          (Some ''.a.keyrules'') G_FILE_MONITOR_EVENT_CREATED = Inr authority_usr_first"
    using w[of glib_plain host_same_name authority_usr_first "Some ''.a.keyrules''"
        G_FILE_MONITOR_EVENT_CREATED] events_ignored(1)
    by (simp only: if_False)
  have e3: "on_dir_monitor_changed glib_plain host_same_name authority_usr_first
          (Some ''a.keyrules'') G_FILE_MONITOR_EVENT_CHANGED = Inr authority_usr_first"
    using w[of glib_plain host_same_name authority_usr_first "Some ''a.keyrules''"
        G_FILE_MONITOR_EVENT_CHANGED] events_ignored(2)
    by (simp only: if_False)
  have e4: "on_dir_monitor_changed glib_plain host_same_name authority_usr_first
          (Some ''a.rules'') G_FILE_MONITOR_EVENT_CREATED = Inr authority_usr_first"
    using w[of glib_plain host_same_name authority_usr_first "Some ''a.rules''"
        G_FILE_MONITOR_EVENT_CREATED] events_ignored(3)
    by (simp only: if_False)
  show ?thesis
    unfolding e1 e2 e3 e4 reload_after_event_chain reload_after_event_signal
    using event_watched events_ignored by blast
qed

section \<open>Properties of the evaluation entry points\<close>

lemmas spec_defs = spec_evaluate_def spec_satisfied_def spec_resolve_admins_def
  spec_rule_identities_def List.map_filter_def

lemma parse_admin_alice:
  "policy_file_new_from_path glib_plain (key_file host_two_admins) ''/etc/a.keyrules'' =
     Inr (Some \<lparr> normal = [], admin = [(policy_new0 glib_plain ''A1'')
        \<lparr> unix_names := [''alice''], n_unix_names := 1,
          constraints := {PF_CONSTRAINT_UNIX_NAMES} \<rparr>] \<rparr>)"
  by (simp add: parser_defs glib_plain_def host_two_admins_def kf_admin_alice_def)

lemma parse_admin_wheel:
  "policy_file_new_from_path glib_plain (key_file host_two_admins) ''/etc/b.keyrules'' =
     Inr (Some \<lparr> normal = [], admin = [(policy_new0 glib_plain ''A2'')
        \<lparr> unix_groups := [''wheel''], n_unix_groups := 1,
          constraints := {PF_CONSTRAINT_UNIX_GROUPS} \<rparr>] \<rparr>)"
  by (simp add: parser_defs glib_plain_def host_two_admins_def kf_admin_wheel_def)

lemmas parse_two_admins =
  parse_admin_alice[unfolded host_two_admins_def, simplified]
  parse_admin_wheel[unfolded host_two_admins_def, simplified]

lemma two_admins_spec:
  "map_sum id (\<lambda>s. spec_resolve_admins ids_example ids_example (chain s) context_alice)
       (reload_scripts glib_plain host_two_admins authority_etc)
     = Inr [PolkitUnixUser 1000, PolkitUnixGroup 10]"
  by (simp add: loader_defs host_two_admins_def authority_etc_def Let_def parse_two_admins
      spec_defs context_alice_def ids_example_def policy_new0_def)

lemma two_admins_code:
  "map_sum id (\<lambda>s. polkit_backend_keyfile_authority_get_admin_auth_identities s request_alice)
       (reload_scripts glib_plain host_two_admins authority_etc)
     = Inr [PolkitUnixUser 0]"
  by (simp add: loader_defs host_two_admins_def authority_etc_def Let_def parse_two_admins
      polkit_backend_keyfile_authority_get_admin_auth_identities_def polkit_unix_user_new_def)

lemma empty_chain: "chain authority_usr_first = []"
  by (simp add: chain_def authority_usr_first_def)

lemma spec_empty:
  "spec_evaluate (chain authority_usr_first) context_alice POLKIT_IMPLICIT_AUTHORIZATION_AUTHORIZED
     = POLKIT_IMPLICIT_AUTHORIZATION_AUTHORIZED"
  by (simp add: empty_chain spec_evaluate_def)

lemma spec_yes:
  "spec_evaluate (chain authority_old_chain) context_alice
       POLKIT_IMPLICIT_AUTHORIZATION_AUTHENTICATION_REQUIRED
     = POLKIT_IMPLICIT_AUTHORIZATION_AUTHORIZED"
  by (simp add: old_chain_before spec_defs rules_yes_def policy_new0_def)

text \<open>
  Claim C2, as the code has it. The claim says that the check walks the chain, returns
  the first satisfied rule's result and falls back to the caller's implicit default.
  \<^verbatim>\<open>polkit_backend_keyfile_authority_check_authorization_sync\<close> reads neither the chain
  nor the request nor the default: for every authority, request and implicit default it
  returns \<^verbatim>\<open>POLKIT_IMPLICIT_AUTHORIZATION_NOT_AUTHORIZED\<close>.
\<close>

theorem check_always_not_authorized:
  "polkit_backend_keyfile_authority_check_authorization_sync s rq implicit
     = POLKIT_IMPLICIT_AUTHORIZATION_NOT_AUTHORIZED"
  by (simp add: polkit_backend_keyfile_authority_check_authorization_sync_def)

text \<open>
  Claim C2 as stated fails. With an empty chain and the implicit default
  \<^verbatim>\<open>authorized\<close> the walk of the specification returns the default, the code returns
  \<^verbatim>\<open>not authorized\<close>. With a chain whose only rule has no constraint and \<^verbatim>\<open>Result=yes\<close>
  the walk returns \<^verbatim>\<open>authorized\<close> as the first match, the code \<^verbatim>\<open>not authorized\<close>.
\<close>

theorem check_ignores_chain_and_default:
  "chain authority_usr_first = []
   \<and> spec_evaluate (chain authority_usr_first) context_alice
        POLKIT_IMPLICIT_AUTHORIZATION_AUTHORIZED = POLKIT_IMPLICIT_AUTHORIZATION_AUTHORIZED
   \<and> polkit_backend_keyfile_authority_check_authorization_sync authority_usr_first request_alice
        POLKIT_IMPLICIT_AUTHORIZATION_AUTHORIZED = POLKIT_IMPLICIT_AUTHORIZATION_NOT_AUTHORIZED
   \<and> chain authority_old_chain = [rules_yes]
   \<and> spec_evaluate (chain authority_old_chain) context_alice
        POLKIT_IMPLICIT_AUTHORIZATION_AUTHENTICATION_REQUIRED
        = POLKIT_IMPLICIT_AUTHORIZATION_AUTHORIZED
   \<and> polkit_backend_keyfile_authority_check_authorization_sync authority_old_chain request_alice
        POLKIT_IMPLICIT_AUTHORIZATION_AUTHENTICATION_REQUIRED
        = POLKIT_IMPLICIT_AUTHORIZATION_NOT_AUTHORIZED"
  using empty_chain spec_empty old_chain_before spec_yes
  by (simp add: polkit_backend_keyfile_authority_check_authorization_sync_def)

text \<open>
  Claim C3, as the code has it. The claim says that every satisfied admin rule of every
  file contributes its identities. \<^verbatim>\<open>polkit_backend_keyfile_authority_get_admin_auth_identities\<close>
  reads neither the chain nor the request: for every authority and request it returns
  the one identity \<^verbatim>\<open>polkit_unix_user_new (0)\<close>.
\<close>

theorem admin_identities_always_root:
  "polkit_backend_keyfile_authority_get_admin_auth_identities s rq = [PolkitUnixUser 0]"
  by (simp add: polkit_backend_keyfile_authority_get_admin_auth_identities_def
      polkit_unix_user_new_def)

text \<open>
  Claim C3 as stated fails. Two files each declare one admin rule, and the subject
  satisfies both: the additive walk of the specification yields the user of the first
  rule and the group of the second, the code yields the user 0 alone.
\<close>

theorem admin_rules_do_not_contribute:
  "map_sum id (\<lambda>s. spec_resolve_admins ids_example ids_example (chain s) context_alice)
       (reload_scripts glib_plain host_two_admins authority_etc)
     = Inr [PolkitUnixUser 1000, PolkitUnixGroup 10]
   \<and> map_sum id (\<lambda>s. polkit_backend_keyfile_authority_get_admin_auth_identities s request_alice)
       (reload_scripts glib_plain host_two_admins authority_etc)
     = Inr [PolkitUnixUser 0]"
  using two_admins_spec two_admins_code by (rule conjI)

end
